theory Spec2Isabelle
  imports Main "HOL-Library.Word"
begin

section \<open>Tensor serialization (thpp/TensorSerialization.cpp, thpp/Tensor-inl.h)\<close>

text \<open>
  A shallow embedding of \<^verbatim>\<open>thpp::detail::serialize\<close>, of \<^verbatim>\<open>Tensor<T>::serialize\<close>
  and of \<^verbatim>\<open>Tensor<T>::deserializeTH\<close>. The C++ integers are 64-bit machine words:
  \<^verbatim>\<open>uint64_t\<close> and \<^verbatim>\<open>size_t\<close> are \<open>64 word\<close>; the \<^verbatim>\<open>long\<close> entries of a
  \<^verbatim>\<open>LongRange\<close> are kept as their 64-bit patterns, since every comparison and product
  of the source converts them to \<^verbatim>\<open>uint64_t\<close> (\<open>sint\<close> reads the signed value back).
  \<^verbatim>\<open>int\<close> indices are \<open>int\<close>. Pointers into the source buffer are byte offsets from
  \<^verbatim>\<open>data.data()\<close>, again 64-bit words.
\<close>

type_synonym byte = "8 word"
type_synonym u64 = "64 word"

subsection \<open>Outcomes\<close>

text \<open>
  A call either returns or does not: \<open>CheckFailed\<close> is a failed \<^verbatim>\<open>CHECK\<close> or
  \<^verbatim>\<open>DCHECK\<close> (the process aborts), \<open>Undefined\<close> is an access outside the memory
  the source buffer or a range describes (undefined behaviour in C++).
\<close>

datatype failure = CheckFailed | Undefined

datatype SharingMode = SHARE_NONE | SHARE_IOBUF_MANAGED | SHARE_ALL

datatype ThriftTensorEndianness = LITTLE | BIG | NATIVE

text \<open>
  The build: \<^verbatim>\<open>DCHECK\<close> macros are compiled in only in debug builds, \<^verbatim>\<open>CHECK\<close>
  always; \<^verbatim>\<open>gMachineEndianness\<close> is a constant of the repository that is not part of
  the sources at hand, so it is a parameter.
\<close>

record build =
  dchecks :: bool
  gMachineEndianness :: ThriftTensorEndianness

subsection \<open>Buffers\<close>

text \<open>
  A \<^verbatim>\<open>folly::IOBuf\<close>: the bytes between \<^verbatim>\<open>data()\<close> and \<^verbatim>\<open>data() + length()\<close>,
  whether it is a chain of several buffers, and whether its memory is managed by the
  buffer itself (\<^verbatim>\<open>isManagedOne()\<close>).
\<close>

record IOBuf =
  buf_bytes :: "byte list"
  isChained :: bool
  isManagedOne :: bool

definition buf_length :: "IOBuf \<Rightarrow> u64" where
  "buf_length b = of_nat (length (buf_bytes b))"

text \<open>The default-constructed buffer \<^verbatim>\<open>folly::IOBuf()\<close>, also what a moved-from buffer is.\<close>

definition IOBuf_empty :: IOBuf where
  "IOBuf_empty = \<lparr>buf_bytes = [], isChained = False, isManagedOne = False\<rparr>"

text \<open>
  \<^verbatim>\<open>IOBuf::trimStart\<close> and \<^verbatim>\<open>IOBuf::trimEnd\<close> assert (\<^verbatim>\<open>DCHECK_LE\<close>) that the amount is
  at most the length; without the assertion the buffer would describe memory it does
  not have.
\<close>

definition trimStart :: "bool \<Rightarrow> IOBuf \<Rightarrow> u64 \<Rightarrow> failure + IOBuf" where
  "trimStart dbg b amount =
     (if amount \<le> buf_length b
      then Inr (b\<lparr>buf_bytes := drop (unat amount) (buf_bytes b)\<rparr>)
      else if dbg then Inl CheckFailed else Inl Undefined)"

definition trimEnd :: "bool \<Rightarrow> IOBuf \<Rightarrow> u64 \<Rightarrow> failure + IOBuf" where
  "trimEnd dbg b amount =
     (if amount \<le> buf_length b
      then Inr (b\<lparr>buf_bytes := take (length (buf_bytes b) - unat amount) (buf_bytes b)\<rparr>)
      else if dbg then Inl CheckFailed else Inl Undefined)"

text \<open>
  \<^verbatim>\<open>partialCloneOne(buf, offset, length)\<close>: a clone of the buffer (sharing its memory)
  trimmed to the run \<^verbatim>\<open>[offset, offset + length)\<close>. The sum \<^verbatim>\<open>offset + length\<close> of the
  assertion is a \<^verbatim>\<open>uint64_t\<close> sum and wraps.
\<close>

definition partialCloneOne :: "bool \<Rightarrow> IOBuf \<Rightarrow> u64 \<Rightarrow> u64 \<Rightarrow> failure + IOBuf" where
  "partialCloneOne dbg buf offset len =
     (if dbg \<and> \<not> offset + len \<le> buf_length buf then Inl CheckFailed
      else case trimStart dbg buf offset of
             Inl e \<Rightarrow> Inl e
           | Inr cloned \<Rightarrow> trimEnd dbg cloned (buf_length cloned - len))"

text \<open>
  Reading \<open>len\<close> bytes through the raw pointer \<^verbatim>\<open>src\<close> (what \<^verbatim>\<open>appender.push(src, len)\<close>
  copies): defined when the run lies inside the buffer.
\<close>

definition raw_read :: "IOBuf \<Rightarrow> u64 \<Rightarrow> u64 \<Rightarrow> failure + byte list" where
  "raw_read buf src len =
     (if unat src + unat len \<le> length (buf_bytes buf)
      then Inr (take (unat len) (drop (unat src) (buf_bytes buf)))
      else Inl Undefined)"

text \<open>Reading entry \<open>i\<close> of a range or vector; outside of it the access is undefined.\<close>

definition at :: "'a list \<Rightarrow> int \<Rightarrow> failure + 'a" where
  "at xs i = (if 0 \<le> i \<and> nat i < length xs then Inr (xs ! nat i) else Inl Undefined)"

subsection \<open>The wire tensor\<close>

text \<open>
  The payload \<^verbatim>\<open>out.data\<close> is a chain of byte runs. Each run remembers whether it
  aliases the memory of the source buffer or holds a copy; the bytes on the wire are
  the concatenation of the runs.
\<close>

datatype origin = Copied | Aliased

record chunk =
  chunk_origin :: origin
  chunk_bytes :: "byte list"

record 'dt ThriftTensor =
  out_dataType :: 'dt
  out_endianness :: ThriftTensorEndianness
  out_sizes :: "u64 list"
  out_data :: "chunk list"

definition payload :: "'dt ThriftTensor \<Rightarrow> byte list" where
  "payload t = concat (map chunk_bytes (out_data t))"

subsection \<open>Contiguity analysis (serialize, lines 54 to 79)\<close>

text \<open>
  The \<^verbatim>\<open>while (firstContiguousDim >= 0)\<close> loop: it returns the index at which it
  stopped and the number of elements of the contiguous run.
\<close>

function contiguous_scan :: "u64 list \<Rightarrow> u64 list \<Rightarrow> int \<Rightarrow> u64 \<Rightarrow> failure + (int \<times> u64)" where
  "contiguous_scan sizes strides firstContiguousDim contiguousSize =
     (if firstContiguousDim \<ge> 0 then
        (case at strides firstContiguousDim of
           Inl e \<Rightarrow> Inl e
         | Inr st \<Rightarrow>
             if st \<noteq> contiguousSize then Inr (firstContiguousDim, contiguousSize)
             else (case at sizes firstContiguousDim of
                     Inl e \<Rightarrow> Inl e
                   | Inr sz \<Rightarrow>
                       contiguous_scan sizes strides (firstContiguousDim - 1)
                         (contiguousSize * sz)))
      else Inr (firstContiguousDim, contiguousSize))"
  by pat_completeness auto
termination
  by (relation "measure (\<lambda>(sizes, strides, i, c). nat (i + 1))") auto

text \<open>
  The analysis as a whole gives \<open>(firstContiguousDim, contiguousSize, dataSize)\<close>, the
  last two counted in elements.
\<close>

definition analyze :: "bool \<Rightarrow> u64 list \<Rightarrow> u64 list \<Rightarrow> failure + (int \<times> u64 \<times> u64)" where
  "analyze dbg sizes strides =
     (let ndims = int (length sizes) in
      if strides \<noteq> [] then
        if dbg \<and> int (length strides) \<noteq> ndims then Inl CheckFailed
        else (case contiguous_scan sizes strides (ndims - 1) 1 of
                Inl e \<Rightarrow> Inl e
              | Inr (i, contiguousSize) \<Rightarrow>
                  let firstContiguousDim = i + 1;
                      dataSize = fold (\<lambda>s d. d * s) (take (nat firstContiguousDim) sizes)
                                   contiguousSize
                  in Inr (firstContiguousDim, contiguousSize, dataSize))
      else
        let dataSize = fold (\<lambda>s d. d * s) sizes 1
        in Inr (0, dataSize, dataSize))"



subsection \<open>Emitting one run (serialize, lines 128 to 146)\<close>

definition kMinCloneSize :: u64 where
  "kMinCloneSize = push_bit 10 4"

fun mayShare :: "SharingMode \<Rightarrow> IOBuf \<Rightarrow> bool" where
  "mayShare SHARE_NONE data = False"
| "mayShare SHARE_IOBUF_MANAGED data = isManagedOne data"
| "mayShare SHARE_ALL data = True"

definition emit :: "bool \<Rightarrow> IOBuf \<Rightarrow> bool \<Rightarrow> u64 \<Rightarrow> u64 \<Rightarrow> failure + chunk" where
  "emit dbg data may_share src contiguousSize =
     (if may_share \<and> contiguousSize \<ge> kMinCloneSize then
        (case partialCloneOne dbg data src contiguousSize of
           Inl e \<Rightarrow> Inl e
         | Inr cloned \<Rightarrow> Inr \<lparr>chunk_origin = Aliased, chunk_bytes = buf_bytes cloned\<rparr>)
      else
        (case raw_read data src contiguousSize of
           Inl e \<Rightarrow> Inl e
         | Inr bs \<Rightarrow> Inr \<lparr>chunk_origin = Copied, chunk_bytes = bs\<rparr>))"

subsection \<open>The odometer (serialize, lines 124 to 158)\<close>

text \<open>What the loop reads and never changes.\<close>

record env =
  env_dbg :: bool
  env_data :: IOBuf
  env_sizes :: "u64 list"
  env_strides :: "u64 list"
  env_elementSize :: u64
  env_firstContiguousDim :: int
  env_contiguousSize :: u64
  env_mayShare :: bool

text \<open>
  The digit \<open>idx\<close> of the counter has \<open>unat (size - counter - 1)\<close> increments left before
  it is reset; \<open>remaining\<close> lists this number for the digits up to \<open>idx\<close> and 0 for the
  digits after it, and decreases lexicographically along the loop.
\<close>

definition remaining :: "u64 list \<Rightarrow> int \<Rightarrow> u64 list \<Rightarrow> nat list" where
  "remaining sizes idx counter =
     map (\<lambda>d. if int d \<le> idx \<and> d < length sizes
               then unat (sizes ! d - counter ! d - 1) else 0)
       [0 ..< length counter]"

text \<open>
  The \<^verbatim>\<open>while (idx >= 0)\<close> loop. \<open>src\<close> is the pointer \<^verbatim>\<open>src\<close> as an offset from
  \<^verbatim>\<open>data.data()\<close>; \<open>outQueue\<close> is the chain of runs appended so far.
\<close>

function odometer :: "env \<Rightarrow> int \<Rightarrow> u64 list \<Rightarrow> u64 \<Rightarrow> chunk list \<Rightarrow> failure + chunk list" where
  "odometer E idx counter src outQueue =
     (if idx \<ge> 0 then
        if idx = env_firstContiguousDim E then
          (case emit (env_dbg E) (env_data E) (env_mayShare E) src (env_contiguousSize E) of
             Inl e \<Rightarrow> Inl e
           | Inr c \<Rightarrow> odometer E (idx - 1) counter src (outQueue @ [c]))
        else
          (case at (env_strides E) idx of
             Inl e \<Rightarrow> Inl e
           | Inr st \<Rightarrow>
          (case at counter idx of
             Inl e \<Rightarrow> Inl e
           | Inr c \<Rightarrow>
          (case at (env_sizes E) idx of
             Inl e \<Rightarrow> Inl e
           | Inr sz \<Rightarrow>
               let src1 = src + st * env_elementSize E in
               if c + 1 = sz
               then odometer E (idx - 1) (counter[nat idx := 0])
                      (src1 - sz * st * env_elementSize E) outQueue
               else odometer E (env_firstContiguousDim E) (counter[nat idx := c + 1])
                      src1 outQueue)))
      else Inr outQueue)"
  by pat_completeness auto

subsection \<open>serialize\<close>

text \<open>
  Modelled from the spec: \<^verbatim>\<open>detail::applySharingMode\<close> is defined in a file of the
  repository that is not among the sources at hand. Following the specification of the
  whole-tensor path: if sharing is permitted by the mode (and, for the managed mode, the
  buffer is managed) the trimmed buffer is moved into the output as it is, otherwise it is
  copied; the bytes are the same either way.
\<close>

definition applySharingMode :: "IOBuf \<Rightarrow> SharingMode \<Rightarrow> chunk" where
  "applySharingMode iob sharing =
     \<lparr>chunk_origin =
        (case sharing of
           SHARE_NONE \<Rightarrow> Copied
         | SHARE_IOBUF_MANAGED \<Rightarrow> if isManagedOne iob then Aliased else Copied
         | SHARE_ALL \<Rightarrow> Aliased),
      chunk_bytes = buf_bytes iob\<rparr>"

text \<open>
  The general path of \<^verbatim>\<open>detail::serialize\<close> (lines 111 to 160, "the hard way"): the
  counter starts at zero, the pointer at \<^verbatim>\<open>data.data()\<close>, and the loop starts with an
  emission. The result is the chain of runs that goes into \<^verbatim>\<open>out.data\<close>.
\<close>

definition serialize_general ::
  "bool \<Rightarrow> u64 list \<Rightarrow> u64 list \<Rightarrow> IOBuf \<Rightarrow> u64 \<Rightarrow> SharingMode \<Rightarrow> int \<Rightarrow> u64
   \<Rightarrow> failure + chunk list" where
  "serialize_general dbg sizes strides data elementSize sharing firstContiguousDim contiguousSize =
     odometer
       \<lparr>env_dbg = dbg, env_data = data, env_sizes = sizes, env_strides = strides,
        env_elementSize = elementSize, env_firstContiguousDim = firstContiguousDim,
        env_contiguousSize = contiguousSize, env_mayShare = mayShare sharing data\<rparr>
       firstContiguousDim (replicate (nat firstContiguousDim) 0) 0 []"

text \<open>
  \<^verbatim>\<open>detail::serialize\<close>. The result is the wire tensor \<^verbatim>\<open>out\<close> together with the source
  buffer \<^verbatim>\<open>data\<close> as the call leaves it. The general path ends with
  \<^verbatim>\<open>out.data = std::move(*outQueue.move())\<close> (line 160): a queue to which no byte was
  appended holds no buffer, and the dereference of what \<^verbatim>\<open>move()\<close> returns is undefined.
  An aliased run has at least \<^verbatim>\<open>kMinCloneSize\<close> bytes, so this is the case where every
  run was a copy of zero bytes.
\<close>

definition serialize ::
  "build \<Rightarrow> u64 list \<Rightarrow> u64 list \<Rightarrow> IOBuf \<Rightarrow> 'dt \<Rightarrow> u64 \<Rightarrow> ThriftTensorEndianness \<Rightarrow> SharingMode
   \<Rightarrow> failure + ('dt ThriftTensor \<times> IOBuf)" where
  "serialize B sizes strides data dtype elementSize endianness sharing =
     (if dchecks B \<and> isChained data then Inl CheckFailed
      else if endianness \<noteq> NATIVE \<and> endianness \<noteq> gMachineEndianness B then Inl CheckFailed
      else
        let endianness1 = (if endianness = NATIVE then gMachineEndianness B else endianness);
            ndims = int (length sizes)
        in case analyze (dchecks B) sizes strides of
             Inl e \<Rightarrow> Inl e
           | Inr (firstContiguousDim, contiguousElements, dataElements) \<Rightarrow>
               let dataSize = dataElements * elementSize;
                   contiguousSize = contiguousElements * elementSize
               in if dchecks B \<and> \<not> contiguousSize \<le> dataSize then Inl CheckFailed
                  else
                    let out = \<lparr>out_dataType = dtype, out_endianness = endianness1,
                               out_sizes = sizes, out_data = []\<rparr>
                    in if ndims = 0 then Inr (out, IOBuf_empty)
                       else if firstContiguousDim = 0 then
                         (if dchecks B \<and> \<not> buf_length data \<ge> dataSize then Inl CheckFailed
                          else case trimEnd (dchecks B) data (buf_length data - dataSize) of
                                 Inl e \<Rightarrow> Inl e
                               | Inr trimmed \<Rightarrow>
                                   Inr (out\<lparr>out_data := [applySharingMode trimmed sharing]\<rparr>,
                                        IOBuf_empty))
                       else
                         (case serialize_general (dchecks B) sizes strides data elementSize
                                 sharing firstContiguousDim contiguousSize of
                            Inl e \<Rightarrow> Inl e
                          | Inr outQueue \<Rightarrow>
                              if concat (map chunk_bytes outQueue) = [] then Inl Undefined
                              else Inr (out\<lparr>out_data := outQueue\<rparr>, data)))"

text \<open>
  \<^verbatim>\<open>Tensor<T>::serialize\<close>: the buffer of the whole storage, trimmed at the front by the
  storage offset, goes to \<^verbatim>\<open>detail::serialize\<close> with the sizes and strides of the tensor.
\<close>

record Tensor =
  t_storage :: IOBuf
  t_storageOffset :: u64
  t_sizes :: "u64 list"
  t_strides :: "u64 list"

definition Tensor_serialize ::
  "build \<Rightarrow> Tensor \<Rightarrow> 'dt \<Rightarrow> u64 \<Rightarrow> ThriftTensorEndianness \<Rightarrow> SharingMode
   \<Rightarrow> failure + 'dt ThriftTensor" where
  "Tensor_serialize B T dtype elementSize endianness sharing =
     (case trimStart (dchecks B) (t_storage T) (t_storageOffset T * elementSize) of
        Inl e \<Rightarrow> Inl e
      | Inr buf \<Rightarrow>
          (case serialize B (t_sizes T) (t_strides T) buf dtype elementSize endianness sharing of
             Inl e \<Rightarrow> Inl e
           | Inr (out, buf1) \<Rightarrow> Inr out))"

subsection \<open>deserialize\<close>

text \<open>
  Modelled from the spec: the body of \<^verbatim>\<open>detail::deserialize\<close> is in a file of the
  repository that is not among the sources at hand. Following the specification: the
  data type of the wire tensor must be the expected one, a mismatch is fatal; the payload
  bytes are returned unchanged.
\<close>

definition deserialize :: "'dt ThriftTensor \<Rightarrow> 'dt \<Rightarrow> failure + byte list" where
  "deserialize in_tensor dtype =
     (if out_dataType in_tensor \<noteq> dtype then Inl CheckFailed else Inr (payload in_tensor))"

text \<open>
  \<^verbatim>\<open>Tensor<T>::deserializeTH\<close>: the arguments it hands to \<^verbatim>\<open>_newWithStorage\<close>, a null
  stride pointer being \<open>None\<close>.
\<close>

record THTensor =
  th_storage :: "byte list"
  th_storageOffset :: int
  th_size :: "u64 list"
  th_stride :: "u64 list option"

definition deserializeTH :: "'dt \<Rightarrow> 'dt ThriftTensor \<Rightarrow> SharingMode \<Rightarrow> failure + THTensor" where
  "deserializeTH dtype thriftTensor sharing =
     (case deserialize thriftTensor dtype of
        Inl e \<Rightarrow> Inl e
      | Inr data \<Rightarrow>
          Inr \<lparr>th_storage = data, th_storageOffset = 0, th_size = out_sizes thriftTensor,
               th_stride = None\<rparr>)"

subsection \<open>The logical array\<close>

text \<open>
  A view is a list of dimensions, each a size and a stride counted in elements. Its
  elements in row-major order (the last index runs fastest) sit at these offsets.
\<close>

fun offsets :: "(nat \<times> int) list \<Rightarrow> int \<Rightarrow> int list" where
  "offsets [] base = [base]"
| "offsets ((n, stride) # dims) base =
     concat (map (\<lambda>i. offsets dims (base + int i * stride)) [0 ..< n])"

definition element :: "byte list \<Rightarrow> nat \<Rightarrow> int \<Rightarrow> byte list" where
  "element buf elementSize off = take elementSize (drop (nat off * elementSize) buf)"

text \<open>
  The row-major flattening of a view over a buffer. A tensor without dimensions is the
  empty tensor (the source says so where it returns early), it has no element.
\<close>

definition view_offsets :: "(nat \<times> int) list \<Rightarrow> int \<Rightarrow> int list" where
  "view_offsets dims base = (if dims = [] then [] else offsets dims base)"

definition flatten :: "byte list \<Rightarrow> nat \<Rightarrow> (nat \<times> int) list \<Rightarrow> int \<Rightarrow> byte list" where
  "flatten buf elementSize dims base =
     concat (map (element buf elementSize) (view_offsets dims base))"

text \<open>Every addressed element lies inside the buffer.\<close>

definition in_bounds :: "byte list \<Rightarrow> nat \<Rightarrow> (nat \<times> int) list \<Rightarrow> int \<Rightarrow> bool" where
  "in_bounds buf elementSize dims base =
     (\<forall>off \<in> set (view_offsets dims base).
        0 \<le> off \<and> (nat off + 1) * elementSize \<le> length buf)"

fun row_major_strides :: "nat list \<Rightarrow> int list" where
  "row_major_strides [] = []"
| "row_major_strides (n # ns) = int (prod_list ns) # row_major_strides ns"

text \<open>
  The dimensions a call of serialize describes: sizes read as unsigned, strides as
  signed numbers; empty strides stand for the row-major ones.
\<close>

definition view_dims :: "u64 list \<Rightarrow> u64 list \<Rightarrow> (nat \<times> int) list" where
  "view_dims sizes strides =
     (if strides = [] then zip (map unat sizes) (row_major_strides (map unat sizes))
      else zip (map unat sizes) (map sint strides))"

text \<open>The dimensions from \<open>k\<close> on are laid out row-major.\<close>

definition trailing_contiguous :: "u64 list \<Rightarrow> u64 list \<Rightarrow> nat \<Rightarrow> bool" where
  "trailing_contiguous sizes strides k =
     (\<forall>d. k \<le> d \<and> d < length sizes \<longrightarrow> strides ! d = prod_list (drop (Suc d) sizes))"

text \<open>
  A call whose view is consistent with a single contiguous backing buffer: the buffer is
  one block whose length fits \<^verbatim>\<open>uint64_t\<close>, the strides are empty or one per dimension,
  an element has at least one byte, the number of bytes of the array fits \<^verbatim>\<open>uint64_t\<close>,
  and every element lies in the buffer.
\<close>

definition valid_view :: "u64 list \<Rightarrow> u64 list \<Rightarrow> IOBuf \<Rightarrow> u64 \<Rightarrow> bool" where
  "valid_view sizes strides data elementSize \<longleftrightarrow>
     \<not> isChained data \<and> length (buf_bytes data) < 2 ^ 64 \<and>
     (strides = [] \<or> length strides = length sizes) \<and>
     elementSize \<noteq> 0 \<and> prod_list (map unat sizes) * unat elementSize < 2 ^ 64 \<and>
     in_bounds (buf_bytes data) (unat elementSize) (view_dims sizes strides) 0"

definition native_order :: "build \<Rightarrow> ThriftTensorEndianness \<Rightarrow> bool" where
  "native_order B endianness \<longleftrightarrow> endianness = NATIVE \<or> endianness = gMachineEndianness B"

text \<open>The whole tensor is one contiguous run: no strides, or row-major ones throughout.\<close>

definition whole_run :: "u64 list \<Rightarrow> u64 list \<Rightarrow> bool" where
  "whole_run sizes strides \<longleftrightarrow> strides = [] \<or> trailing_contiguous sizes strides 0"

subsection \<open>The traversal as nested loops\<close>

text \<open>
  The offsets at which the odometer emits its runs, in the arithmetic of the machine:
  one loop per leading dimension, the first dimension outermost.
\<close>

fun run_starts :: "(u64 \<times> u64) list \<Rightarrow> u64 \<Rightarrow> u64 \<Rightarrow> u64 list" where
  "run_starts [] es src = [src]"
| "run_starts ((sz, st) # dims) es src =
     concat (map (\<lambda>i. run_starts dims es (src + of_nat i * st * es)) [0 ..< unat sz])"

definition dims_from :: "env \<Rightarrow> nat \<Rightarrow> nat \<Rightarrow> (u64 \<times> u64) list" where
  "dims_from E j k = map (\<lambda>d. (env_sizes E ! d, env_strides E ! d)) [j ..< k]"

text \<open>The dimensions of the machine read as numbers: sizes unsigned, strides signed.\<close>

definition int_dims :: "(u64 \<times> u64) list \<Rightarrow> (nat \<times> int) list" where
  "int_dims wdims = map (\<lambda>(sz, st). (unat sz, sint st)) wdims"

text \<open>
  Dimensions laid out row-major: the stride of a dimension is the number of elements of
  the dimensions after it. A dimension of size 1 may have any stride, and nothing is
  asked below a dimension of size 0.
\<close>

fun row_major_dims :: "(nat \<times> int) list \<Rightarrow> bool" where
  "row_major_dims [] = True"
| "row_major_dims ((n, stride) # dims) =
     (n = 0 \<or> ((2 \<le> n \<longrightarrow> stride = int (prod_list (map fst dims))) \<and> row_major_dims dims))"

section \<open>Termination of the odometer\<close>

lemma lenlex_first_less:
  "length xs = length ys \<Longrightarrow> k < length xs \<Longrightarrow> \<forall>i<k. xs ! i \<le> ys ! i \<Longrightarrow> xs ! k < ys ! k
   \<Longrightarrow> (xs, ys) \<in> lenlex less_than"
proof (induction xs ys arbitrary: k rule: list_induct2)
  case Nil
  then show ?case by simp
next
  case (Cons x xs y ys)
  show ?case
  proof (cases k)
    case 0
    with Cons.prems show ?thesis by (simp add: Cons_lenlex_iff Cons.hyps)
  next
    case (Suc j)
    from Cons.prems Suc have xy: "x \<le> y" by auto
    from Cons.prems Suc have "\<forall>i<j. xs ! i \<le> ys ! i" by auto
    moreover from Cons.prems Suc have "xs ! j < ys ! j" "j < length xs" by auto
    ultimately have "(xs, ys) \<in> lenlex less_than" using Cons.IH by blast
    with xy show ?thesis by (auto simp: Cons_lenlex_iff Cons.hyps)
  qed
qed

lemma lenlex_pointwise_le:
  "length xs = length ys \<Longrightarrow> \<forall>i<length xs. xs ! i \<le> ys ! i
   \<Longrightarrow> xs = ys \<or> (xs, ys) \<in> lenlex less_than"
proof (induction xs ys rule: list_induct2)
  case Nil
  then show ?case by simp
next
  case (Cons x xs y ys)
  from Cons.prems have xy: "x \<le> y" by auto
  from Cons.prems have "\<forall>i<length xs. xs ! i \<le> ys ! i" by auto
  with Cons.IH have "xs = ys \<or> (xs, ys) \<in> lenlex less_than" by blast
  with xy show ?case by (auto simp: Cons_lenlex_iff Cons.hyps)
qed

lemma remaining_length [simp]: "length (remaining sizes idx counter) = length counter"
  by (simp add: remaining_def)

lemma remaining_nth:
  "d < length counter \<Longrightarrow> remaining sizes idx counter ! d =
     (if int d \<le> idx \<and> d < length sizes then unat (sizes ! d - counter ! d - 1) else 0)"
  by (simp add: remaining_def)

lemma at_Inr: "at xs i = Inr v \<Longrightarrow> 0 \<le> i \<and> nat i < length xs \<and> v = xs ! nat i"
  by (auto simp: at_def split: if_splits)

lemma odometer_terminates: "All odometer_dom"
proof (relation "inv_image (lenlex less_than <*lex*> less_than)
         (\<lambda>(E, idx, counter, src, outQueue). (remaining (env_sizes E) idx counter, nat (idx + 1)))",
       goal_cases)
  case 1
  show ?case by (intro wf_inv_image wf_lex_prod wf_lenlex wf_less_than)
next
  case (2 E idx counter src outQueue c)
  have "remaining (env_sizes E) (idx - 1) counter = remaining (env_sizes E) idx counter
        \<or> (remaining (env_sizes E) (idx - 1) counter, remaining (env_sizes E) idx counter)
            \<in> lenlex less_than"
    by (rule lenlex_pointwise_le) (auto simp: remaining_nth)
  with 2 show ?case by auto
next
  case (3 E idx counter src outQueue st c sz src1)
  from 3 have i: "0 \<le> idx" "nat idx < length counter" "nat idx < length (env_sizes E)"
    and c: "c = counter ! nat idx" and sz: "sz = env_sizes E ! nat idx"
    by (auto dest: at_Inr)
  have "remaining (env_sizes E) (idx - 1) (counter[nat idx := 0])
        = remaining (env_sizes E) idx counter"
  proof (rule nth_equalityI)
    fix d assume "d < length (remaining (env_sizes E) (idx - 1) (counter[nat idx := 0]))"
    then have d: "d < length counter" by simp
    show "remaining (env_sizes E) (idx - 1) (counter[nat idx := 0]) ! d
          = remaining (env_sizes E) idx counter ! d"
    proof (cases "d = nat idx")
      case True
      from 3 have "sz = c + 1" by simp
      then have "sz - c - 1 = 0" by simp
      with True i d c sz show ?thesis by (simp add: remaining_nth)
    next
      case False
      with i d show ?thesis by (auto simp: remaining_nth)
    qed
  qed simp
  with i show ?case by simp
next
  case (4 E idx counter src outQueue st c sz src1)
  from 4 have i: "0 \<le> idx" "nat idx < length counter" "nat idx < length (env_sizes E)"
    and c: "c = counter ! nat idx" and sz: "sz = env_sizes E ! nat idx"
    by (auto dest: at_Inr)
  let ?k = "nat idx"
  let ?new = "remaining (env_sizes E) (env_firstContiguousDim E) (counter[?k := c + 1])"
  let ?old = "remaining (env_sizes E) idx counter"
  have ne: "sz - c - 1 \<noteq> 0" using 4 by (simp add: algebra_simps)
  have dec: "unat (sz - (c + 1) - 1) < unat (sz - c - 1)"
  proof -
    have "sz - (c + 1) - 1 = (sz - c - 1) - 1" by simp
    moreover have "unat ((sz - c - 1) - 1) < unat (sz - c - 1)"
      using ne by (metis unat_minus_one diff_less unat_gt_0 zero_less_one)
    ultimately show ?thesis by simp
  qed
  have "(?new, ?old) \<in> lenlex less_than"
  proof (rule lenlex_first_less [where k = ?k])
    show "length ?new = length ?old" by simp
    show "?k < length ?new" using i by simp
    show "\<forall>j<?k. ?new ! j \<le> ?old ! j" using i by (auto simp: remaining_nth)
    show "?new ! ?k < ?old ! ?k"
      using i dec ne c sz by (auto simp: remaining_nth unat_gt_0)
  qed
  then show ?case by simp
qed

termination odometer
  by (rule odometer_terminates)

declare contiguous_scan.simps [simp del]
declare odometer.simps [simp del]

lemma fold_mult_prod_list: "fold (\<lambda>s d. d * s) xs (a :: u64) = prod_list xs * a"
  by (induction xs arbitrary: a) (simp_all add: mult_ac)

lemma at_nth: "0 \<le> i \<Longrightarrow> nat i < length xs \<Longrightarrow> at xs i = Inr (xs ! nat i)"
  by (simp add: at_def)

lemma prod_list_drop_step:
  "k < length (xs :: u64 list) \<Longrightarrow> prod_list (drop (Suc k) xs) * xs ! k = prod_list (drop k xs)"
  by (simp add: Cons_nth_drop_Suc [symmetric] mult.commute)

lemma contiguous_scan_char:
  "length strides = length sizes \<Longrightarrow> - 1 \<le> i \<Longrightarrow> i < int (length sizes) \<Longrightarrow>
   c = prod_list (drop (nat (i + 1)) sizes) \<Longrightarrow>
   trailing_contiguous sizes strides (nat (i + 1)) \<Longrightarrow>
   \<exists>k. contiguous_scan sizes strides i c = Inr (int k - 1, prod_list (drop k sizes)) \<and>
       k \<le> nat (i + 1) \<and> trailing_contiguous sizes strides k \<and>
       (0 < k \<longrightarrow> strides ! (k - 1) \<noteq> prod_list (drop k sizes))"
proof (induction sizes strides i c rule: contiguous_scan.induct)
  case (1 sizes strides i c)
  show ?case
  proof (cases "i \<ge> 0")
    case False
    with 1 have "i = - 1" by simp
    then show ?thesis
      using "1.prems"
      by (subst contiguous_scan.simps) (auto intro!: exI [of _ 0])
  next
    case True
    then have inr: "nat i < length sizes" "nat i < length strides" "nat (i + 1) = Suc (nat i)"
      using "1.prems" by auto
    have ats: "at strides i = Inr (strides ! nat i)" "at sizes i = Inr (sizes ! nat i)"
      using True inr by (simp_all add: at_nth)
    show ?thesis
    proof (cases "strides ! nat i = c")
      case False
      have "contiguous_scan sizes strides i c = Inr (i, c)"
        using True ats False by (subst contiguous_scan.simps) simp
      with True False "1.prems" inr show ?thesis
        by (intro exI [of _ "Suc (nat i)"]) auto
    next
      case eq: True
      have c': "c * sizes ! nat i = prod_list (drop (nat (i - 1 + 1)) sizes)"
        using "1.prems" inr True by (simp add: prod_list_drop_step)
      have tc: "trailing_contiguous sizes strides (nat (i - 1 + 1))"
        unfolding trailing_contiguous_def
      proof (intro allI impI)
        fix d assume d: "nat (i - 1 + 1) \<le> d \<and> d < length sizes"
        show "strides ! d = prod_list (drop (Suc d) sizes)"
        proof (cases "d = nat i")
          case True
          with eq "1.prems" inr show ?thesis by simp
        next
          case False
          with d inr have "nat (i + 1) \<le> d" by simp
          with d "1.prems"(5) show ?thesis by (simp add: trailing_contiguous_def)
        qed
      qed
      have "\<exists>k. contiguous_scan sizes strides (i - 1) (c * sizes ! nat i)
                = Inr (int k - 1, prod_list (drop k sizes)) \<and>
              k \<le> nat (i - 1 + 1) \<and> trailing_contiguous sizes strides k \<and>
              (0 < k \<longrightarrow> strides ! (k - 1) \<noteq> prod_list (drop k sizes))"
        using "1.IH" [OF True ats(1) _ ats(2)] eq "1.prems" True c' tc by simp
      then obtain k where k: "contiguous_scan sizes strides (i - 1) (c * sizes ! nat i)
                = Inr (int k - 1, prod_list (drop k sizes))"
              "k \<le> nat (i - 1 + 1)" "trailing_contiguous sizes strides k"
              "0 < k \<longrightarrow> strides ! (k - 1) \<noteq> prod_list (drop k sizes)" by blast
      have "contiguous_scan sizes strides i c = contiguous_scan sizes strides (i - 1) (c * sizes ! nat i)"
        using True ats eq by (subst contiguous_scan.simps) simp
      with k True show ?thesis by (intro exI [of _ k]) auto
    qed
  qed
qed

lemma analyze_nonempty:
  assumes "strides \<noteq> []" "length strides = length sizes"
  shows "\<exists>k. analyze dbg sizes strides
              = Inr (int k, prod_list (drop k sizes),
                     prod_list (take k sizes) * prod_list (drop k sizes)) \<and>
             k \<le> length sizes \<and> trailing_contiguous sizes strides k \<and>
             (0 < k \<longrightarrow> strides ! (k - 1) \<noteq> prod_list (drop k sizes))"
proof -
  have "\<exists>k. contiguous_scan sizes strides (int (length sizes) - 1) 1
              = Inr (int k - 1, prod_list (drop k sizes)) \<and>
            k \<le> nat (int (length sizes) - 1 + 1) \<and> trailing_contiguous sizes strides k \<and>
            (0 < k \<longrightarrow> strides ! (k - 1) \<noteq> prod_list (drop k sizes))"
    using assms by (intro contiguous_scan_char) (auto simp: trailing_contiguous_def)
  then obtain k where k: "contiguous_scan sizes strides (int (length sizes) - 1) 1
              = Inr (int k - 1, prod_list (drop k sizes))"
      "k \<le> length sizes" "trailing_contiguous sizes strides k"
      "0 < k \<longrightarrow> strides ! (k - 1) \<noteq> prod_list (drop k sizes)" by auto
  have "analyze dbg sizes strides
          = Inr (int k, prod_list (drop k sizes),
                 prod_list (take k sizes) * prod_list (drop k sizes))"
    using assms k(1) by (simp add: analyze_def fold_mult_prod_list Let_def)
  with k show ?thesis by blast
qed

lemma analyze_empty:
  "analyze dbg sizes [] = Inr (0, prod_list sizes, prod_list sizes)"
  by (simp add: analyze_def fold_mult_prod_list Let_def)


section \<open>Emitting runs\<close>

lemma unat_of_nat_u64: "n < 2 ^ 64 \<Longrightarrow> unat (of_nat n :: u64) = n"
  by (simp add: unat_of_nat)

lemma unat_buf_length:
  "length (buf_bytes b) < 2 ^ 64 \<Longrightarrow> unat (buf_length b) = length (buf_bytes b)"
  unfolding buf_length_def by (rule unat_of_nat_u64)

lemma trimStart_ok:
  "length (buf_bytes b) < 2 ^ 64 \<Longrightarrow> unat a \<le> length (buf_bytes b) \<Longrightarrow>
   trimStart dbg b a = Inr (b\<lparr>buf_bytes := drop (unat a) (buf_bytes b)\<rparr>)"
  by (simp add: trimStart_def word_le_nat_alt unat_buf_length)

lemma trimEnd_ok:
  "length (buf_bytes b) < 2 ^ 64 \<Longrightarrow> unat a \<le> length (buf_bytes b) \<Longrightarrow>
   trimEnd dbg b a = Inr (b\<lparr>buf_bytes := take (length (buf_bytes b) - unat a) (buf_bytes b)\<rparr>)"
  by (simp add: trimEnd_def word_le_nat_alt unat_buf_length)

lemma raw_read_ok:
  "unat src + unat len \<le> length (buf_bytes data) \<Longrightarrow>
   raw_read data src len = Inr (take (unat len) (drop (unat src) (buf_bytes data)))"
  by (simp add: raw_read_def)

lemma partialCloneOne_ok:
  assumes "unat src + unat len \<le> length (buf_bytes data)" "length (buf_bytes data) < 2 ^ 64"
  shows "partialCloneOne dbg data src len
         = Inr (data\<lparr>buf_bytes := take (unat len) (drop (unat src) (buf_bytes data))\<rparr>)"
proof -
  let ?L = "length (buf_bytes data)"
  define cloned where "cloned = data\<lparr>buf_bytes := drop (unat src) (buf_bytes data)\<rparr>"
  have sum: "unat (src + len) = unat src + unat len"
    using assms by (simp add: unat_add_lem [THEN iffD1])
  have 1: "src + len \<le> buf_length data"
    using assms sum by (simp add: word_le_nat_alt unat_buf_length)
  have 2: "trimStart dbg data src = Inr cloned"
    unfolding cloned_def using assms by (intro trimStart_ok) auto
  have len': "length (buf_bytes cloned) = ?L - unat src" "length (buf_bytes cloned) < 2 ^ 64"
    using assms by (simp_all add: cloned_def)
  have ub: "unat (buf_length cloned) = ?L - unat src"
    using len' by (simp add: unat_buf_length)
  have 3: "len \<le> buf_length cloned"
    using assms ub by (simp add: word_le_nat_alt)
  have 4: "unat (buf_length cloned - len) = ?L - unat src - unat len"
    using 3 ub by (simp add: unat_sub)
  have "trimEnd dbg cloned (buf_length cloned - len)
        = Inr (cloned\<lparr>buf_bytes := take (length (buf_bytes cloned) - unat (buf_length cloned - len))
                                      (buf_bytes cloned)\<rparr>)"
    using len' 4 by (intro trimEnd_ok) auto
  also have "length (buf_bytes cloned) - unat (buf_length cloned - len) = unat len"
    using 4 len' assms by simp
  finally have 5: "trimEnd dbg cloned (buf_length cloned - len)
        = Inr (data\<lparr>buf_bytes := take (unat len) (drop (unat src) (buf_bytes data))\<rparr>)"
    by (simp add: cloned_def)
  show ?thesis
    unfolding partialCloneOne_def using 1 2 5 by simp
qed

lemma emit_ok:
  assumes "unat src + unat len \<le> length (buf_bytes data)" "length (buf_bytes data) < 2 ^ 64"
  shows "emit dbg data ms src len
         = Inr \<lparr>chunk_origin = (if ms \<and> kMinCloneSize \<le> len then Aliased else Copied),
                chunk_bytes = take (unat len) (drop (unat src) (buf_bytes data))\<rparr>"
  using assms by (simp add: emit_def partialCloneOne_ok raw_read_ok)


lemma dims_from_Cons:
  "j < k \<Longrightarrow> dims_from E j k = (env_sizes E ! j, env_strides E ! j) # dims_from E (Suc j) k"
  by (simp add: dims_from_def upt_conv_Cons)

lemma dims_from_Nil [simp]: "dims_from E k k = []"
  by (simp add: dims_from_def)

lemma odometer_done: "idx < 0 \<Longrightarrow> odometer E idx counter src out = Inr out"
  by (subst odometer.simps) simp

lemma odometer_emit_step:
  "env_firstContiguousDim E = int k \<Longrightarrow>
   emit (env_dbg E) (env_data E) (env_mayShare E) src (env_contiguousSize E) = Inr c \<Longrightarrow>
   odometer E (int k) counter src out = odometer E (int k - 1) counter src (out @ [c])"
  by (subst odometer.simps) simp

lemma odometer_digit_step:
  assumes "env_firstContiguousDim E = int k" "j < k" "j < length (env_strides E)"
    "j < length (env_sizes E)" "j < length counter"
  shows "odometer E (int j) counter src out =
     (if counter ! j + 1 = env_sizes E ! j
      then odometer E (int j - 1) (counter[j := 0])
             (src + env_strides E ! j * env_elementSize E
                - env_sizes E ! j * env_strides E ! j * env_elementSize E) out
      else odometer E (int k) (counter[j := counter ! j + 1])
             (src + env_strides E ! j * env_elementSize E) out)"
  using assms by (subst odometer.simps) (simp add: at_def Let_def)

lemma odometer_block:
  assumes E: "env_firstContiguousDim E = int k" "k \<le> length (env_sizes E)"
      "k \<le> length (env_strides E)"
    and es: "es = env_elementSize E"
  shows "length counter = k \<Longrightarrow> j \<le> k \<Longrightarrow>
    \<forall>d. j \<le> d \<and> d < k \<longrightarrow> counter ! d = 0 \<Longrightarrow>
    \<forall>d. j \<le> d \<and> d < k \<longrightarrow> env_sizes E ! d \<noteq> 0 \<Longrightarrow>
    \<forall>w \<in> set (run_starts (dims_from E j k) es src).
       emit (env_dbg E) (env_data E) (env_mayShare E) w (env_contiguousSize E) = Inr (mk w) \<Longrightarrow>
    odometer E (int k) counter src out
      = odometer E (int j - 1) counter src (out @ map mk (run_starts (dims_from E j k) es src))"
proof (induction "k - j" arbitrary: j counter src out)
  case 0
  then have "j = k" by simp
  with 0 E show ?case by (simp add: odometer_emit_step)
next
  case (Suc m)
  then have jk: "j < k" and m: "m = k - Suc j" by auto
  define sz where "sz = env_sizes E ! j"
  define st where "st = env_strides E ! j"
  define n where "n = unat sz"
  define rest where "rest = dims_from E (Suc j) k"
  have dims: "dims_from E j k = (sz, st) # rest"
    using jk by (simp add: dims_from_Cons sz_def st_def rest_def)
  have starts: "run_starts (dims_from E j k) es src
                = concat (map (\<lambda>i. run_starts rest es (src + of_nat i * st * es)) [0 ..< n])"
    by (simp add: dims n_def)
  have okr: "\<forall>w \<in> set (run_starts rest es (src + of_nat i * st * es)).
       emit (env_dbg E) (env_data E) (env_mayShare E) w (env_contiguousSize E) = Inr (mk w)"
    if "i < n" for i
    using Suc.prems(5) that unfolding starts by auto
  have npos: "0 < n" using Suc.prems(4) jk by (auto simp: n_def sz_def unat_gt_0)
  have nz': "\<forall>d. Suc j \<le> d \<and> d < k \<longrightarrow> env_sizes E ! d \<noteq> 0" using Suc.prems(4) by auto
  have inner: "odometer E (int k) c s out1
      = odometer E (int j) c s (out1 @ map mk (run_starts rest es s))"
    if "length c = k" "\<forall>d. Suc j \<le> d \<and> d < k \<longrightarrow> c ! d = 0"
       "\<forall>w \<in> set (run_starts rest es s).
          emit (env_dbg E) (env_data E) (env_mayShare E) w (env_contiguousSize E) = Inr (mk w)"
    for c s out1
    using Suc.hyps(1) [OF m that(1) _ that(2) nz'] that(3) jk by (simp add: rest_def)
  have ds: "odometer E (int j) c s out1 =
     (if c ! j + 1 = sz
      then odometer E (int j - 1) (c[j := 0]) (s + st * es - sz * st * es) out1
      else odometer E (int k) (c[j := c ! j + 1]) (s + st * es) out1)"
    if "length c = k" for c s out1
    using odometer_digit_step [OF E(1) jk, of c s out1] E jk that
    by (simp add: sz_def st_def es)
  have digit: "odometer E (int j) c (src + of_nat i * st * es) out1
      = odometer E (int j - 1) (c[j := 0]) src
          (out1 @ concat (map (\<lambda>i'. map mk (run_starts rest es (src + of_nat i' * st * es)))
                          [Suc i ..< n]))"
    if "i < n" "length c = k" "c ! j = of_nat i" "\<forall>d. Suc j \<le> d \<and> d < k \<longrightarrow> c ! d = 0"
    for i c out1
    using that
  proof (induction "n - Suc i" arbitrary: i c out1)
    case 0
    then have i: "Suc i = n" by simp
    have "(of_nat (Suc i) :: u64) = of_nat (unat sz)" using i by (simp only: n_def)
    then have szeq: "(of_nat i :: u64) + 1 = sz" by (simp add: add.commute)
    then have cj: "c ! j + 1 = sz" using "0.prems" by simp
    have "src + of_nat i * st * es + st * es - (of_nat i + 1) * st * es = src"
      by (simp add: algebra_simps)
    then have src_back: "src + of_nat i * st * es + st * es - sz * st * es = src"
      unfolding szeq .
    have "odometer E (int j) c (src + of_nat i * st * es) out1
          = odometer E (int j - 1) (c[j := 0])
              (src + of_nat i * st * es + st * es - sz * st * es) out1"
      using ds [OF "0.prems"(2)] cj by simp
    then show ?case
      unfolding src_back using i by simp
  next
    case (Suc m')
    then have i: "Suc i < n" by simp
    have "unat (of_nat (Suc i) :: u64) = Suc i"
      using i by (intro le_unat_uoi [of _ sz]) (simp add: n_def)
    then have "(of_nat (Suc i) :: u64) \<noteq> sz" using i by (auto simp: n_def)
    then have ne: "c ! j + 1 \<noteq> sz" using Suc.prems by (simp add: add.commute)
    have next_src: "src + of_nat i * st * es + st * es = src + of_nat (Suc i) * st * es"
      by (simp add: algebra_simps)
    have next_c: "c ! j + 1 = of_nat (Suc i)" using Suc.prems by simp
    let ?c = "c[j := of_nat (Suc i)]"
    have "odometer E (int j) c (src + of_nat i * st * es) out1
                = odometer E (int k) (c[j := c ! j + 1]) (src + of_nat i * st * es + st * es) out1"
      using ds [OF Suc.prems(2)] ne by simp
    then have step: "odometer E (int j) c (src + of_nat i * st * es) out1
                = odometer E (int k) ?c (src + of_nat (Suc i) * st * es) out1"
      unfolding next_src next_c .
    have c1: "length ?c = k" "?c ! j = of_nat (Suc i)" "\<forall>d. Suc j \<le> d \<and> d < k \<longrightarrow> ?c ! d = 0"
      using Suc.prems jk by auto
    have "odometer E (int k) ?c (src + of_nat (Suc i) * st * es) out1
          = odometer E (int j) ?c (src + of_nat (Suc i) * st * es)
              (out1 @ map mk (run_starts rest es (src + of_nat (Suc i) * st * es)))"
      using c1 okr [OF i] by (intro inner) auto
    also have "\<dots> = odometer E (int j - 1) (?c[j := 0]) src
          ((out1 @ map mk (run_starts rest es (src + of_nat (Suc i) * st * es))) @
             concat (map (\<lambda>i'. map mk (run_starts rest es (src + of_nat i' * st * es)))
                          [Suc (Suc i) ..< n]))"
      using Suc.hyps(2) c1 i by (intro Suc.hyps(1)) auto
    finally show ?case
      unfolding step using i by (simp add: upt_conv_Cons [of "Suc i" n])
  qed
  have "odometer E (int k) counter src out
        = odometer E (int j) counter src (out @ map mk (run_starts rest es src))"
    using Suc.prems okr [OF npos] by (intro inner) auto
  also have "\<dots> = odometer E (int j - 1) (counter[j := 0]) src
      ((out @ map mk (run_starts rest es src)) @
       concat (map (\<lambda>i'. map mk (run_starts rest es (src + of_nat i' * st * es))) [Suc 0 ..< n]))"
    using digit [of 0 counter "out @ map mk (run_starts rest es src)"] npos Suc.prems jk by simp
  also have "counter[j := 0] = counter"
    using Suc.prems jk by (simp add: list_update_same_conv)
  finally show ?case
    using npos by (simp add: starts upt_conv_Cons [of 0 n] map_concat comp_def)
qed

section \<open>Row-major views\<close>

lemma concat_blocks:
  "concat (map (\<lambda>i. map (\<lambda>e. f (i * p + e)) [0 ..< p]) [0 ..< n]) = map f [0 ..< n * p]"
proof (induction n)
  case 0
  show ?case by simp
next
  case (Suc n)
  have "map (\<lambda>e. f (n * p + e)) [0 ..< p] = map f (map (\<lambda>e. e + n * p) [0 ..< p])"
    by (simp add: add.commute)
  also have "map (\<lambda>e. e + n * p) [0 ..< p] = [n * p ..< p + n * p]"
    by (simp add: map_add_upt)
  finally have last: "map (\<lambda>e. f (n * p + e)) [0 ..< p] = map f [n * p ..< n * p + p]"
    by (simp add: add.commute)
  have "[0 ..< n * p + p] = [0 ..< n * p] @ [n * p ..< n * p + p]"
    by (rule upt_add_eq_append) simp
  then have "[0 ..< Suc n * p] = [0 ..< n * p] @ [n * p ..< n * p + p]"
    by (simp add: add.commute)
  with Suc last show ?case by simp
qed

lemma offsets_row_major:
  "row_major_dims dims \<Longrightarrow>
   offsets dims base = map (\<lambda>e. base + int e) [0 ..< prod_list (map fst dims)]"
proof (induction dims arbitrary: base)
  case Nil
  show ?case by simp
next
  case (Cons d dims)
  obtain n stride where d: "d = (n, stride)" by (cases d)
  let ?p = "prod_list (map fst dims)"
  show ?case
  proof (cases "n = 0")
    case True
    with d show ?thesis by simp
  next
    case False
    with Cons.prems d have rm: "row_major_dims dims" and st: "2 \<le> n \<longrightarrow> stride = int ?p"
      by auto
    have inner: "offsets dims b = map (\<lambda>e. b + int e) [0 ..< ?p]" for b
      using Cons.IH [OF rm] .
    show ?thesis
    proof (cases "n = 1")
      case True
      with d inner show ?thesis by simp
    next
      case False
      with \<open>n \<noteq> 0\<close> st have stride: "stride = int ?p" by simp
      have "offsets (d # dims) base
            = concat (map (\<lambda>i. map (\<lambda>e. base + int (i * ?p + e)) [0 ..< ?p]) [0 ..< n])"
        by (simp add: d inner stride algebra_simps)
      also have "\<dots> = map (\<lambda>e. base + int e) [0 ..< n * ?p]"
        by (rule concat_blocks)
      finally show ?thesis by (simp add: d)
    qed
  qed
qed

lemma concat_elements:
  "concat (map (\<lambda>e. take es (drop ((b + e) * es) buf)) [0 ..< p])
   = take (p * es) (drop (b * es) buf)"
proof (induction p)
  case 0
  show ?case by simp
next
  case (Suc p)
  have "take (p * es + es) (drop (b * es) buf)
        = take (p * es) (drop (b * es) buf) @ take es (drop (p * es) (drop (b * es) buf))"
    by (rule take_add)
  moreover have "drop (p * es) (drop (b * es) buf) = drop ((b + p) * es) buf"
    by (simp add: algebra_simps)
  moreover have "Suc p * es = p * es + es" by simp
  ultimately show ?case using Suc by (simp add: add.commute)
qed

lemma concat_concat_map: "concat (concat xss) = concat (map concat xss)"
  by (induction xss) simp_all

lemma offsets_append:
  "offsets (dims1 @ dims2) base = concat (map (offsets dims2) (offsets dims1 base))"
proof (induction dims1 arbitrary: base)
  case Nil
  show ?case by simp
next
  case (Cons d dims1)
  obtain n stride where d: "d = (n, stride)" by (cases d)
  show ?case by (simp add: d Cons.IH map_concat comp_def concat_concat_map)
qed

lemma run_starts_offsets:
  "run_starts wdims es (of_int base * es)
   = map (\<lambda>r. of_int r * es) (offsets (int_dims wdims) base)"
proof (induction wdims arbitrary: base)
  case Nil
  show ?case by (simp add: int_dims_def)
next
  case (Cons d wdims)
  obtain sz st where d: "d = (sz, st)" by (cases d)
  have step: "of_int base * es + of_nat i * st * es = (of_int (base + int i * sint st) :: u64) * es"
    for i
    by (simp add: algebra_simps)
  have "run_starts (d # wdims) es (of_int base * es)
        = concat (map (\<lambda>i. run_starts wdims es (of_int (base + int i * sint st) * es))
                   [0 ..< unat sz])"
    by (simp only: d run_starts.simps step)
  also have "\<dots> = concat (map (\<lambda>i. map (\<lambda>r. of_int r * es)
                                  (offsets (int_dims wdims) (base + int i * sint st)))
                   [0 ..< unat sz])"
    by (simp only: Cons.IH)
  finally show ?case
    by (simp add: d int_dims_def map_concat comp_def)
qed


lemma of_nat_prod_list_unat: "of_nat (prod_list (map unat xs)) = (prod_list xs :: u64)"
  by (induction xs) simp_all

lemma unat_prod_bytes:
  assumes "prod_list (map unat xs) * unat es < 2 ^ 64"
  shows "unat (prod_list xs * es :: u64) = prod_list (map unat xs) * unat es"
proof -
  have "prod_list xs * es = (of_nat (prod_list (map unat xs) * unat es) :: u64)"
    by (simp add: of_nat_prod_list_unat)
  then show ?thesis using assms by (simp only: unat_of_nat_u64)
qed

lemma sint_of_nat_u64: "n < 2 ^ 63 \<Longrightarrow> sint (of_nat n :: u64) = int n"
  by (simp add: signed_of_nat signed_take_bit_int_eq_self)

lemma map_comp_fst_zip: "length xs = length ys \<Longrightarrow> map (f \<circ> fst) (zip xs ys) = map f xs"
  by (induction xs ys rule: list_induct2) simp_all

lemma map_fst_int_dims:
  "length strides = length sizes \<Longrightarrow>
   map fst (int_dims (drop k (zip sizes strides))) = map unat (drop k sizes)"
proof -
  assume len: "length strides = length sizes"
  have "map fst (int_dims zs) = map unat (map fst zs)" for zs
    by (simp add: int_dims_def comp_def case_prod_unfold)
  then show ?thesis using len by (simp add: drop_zip map_comp_fst_zip)
qed


lemma int_dims_Cons: "int_dims ((sz, st) # wdims) = (unat sz, sint st) # int_dims wdims"
  by (simp add: int_dims_def)

lemma row_major_from_trailing:
  assumes len: "length strides = length sizes"
  shows "k \<le> length sizes \<Longrightarrow> trailing_contiguous sizes strides k \<Longrightarrow>
         prod_list (map unat (drop k sizes)) < 2 ^ 64 \<Longrightarrow>
         row_major_dims (int_dims (drop k (zip sizes strides)))"
proof (induction "length sizes - k" arbitrary: k)
  case 0
  then show ?case by (simp add: int_dims_def)
next
  case (Suc m)
  then have k: "k < length sizes" by simp
  let ?sz = "sizes ! k" and ?st = "strides ! k"
  let ?rest = "drop (Suc k) (zip sizes strides)"
  let ?p = "prod_list (map unat (drop (Suc k) sizes))"
  have split: "drop k (zip sizes strides) = (?sz, ?st) # ?rest"
    using k len by (simp add: Cons_nth_drop_Suc [symmetric])
  have prod: "prod_list (map unat (drop k sizes)) = unat ?sz * ?p"
    using k by (simp add: Cons_nth_drop_Suc [symmetric])
  have fst_rest: "map fst (int_dims ?rest) = map unat (drop (Suc k) sizes)"
    using len by (rule map_fst_int_dims)
  show ?case
  proof (cases "unat ?sz = 0")
    case True
    then show ?thesis by (simp add: split int_dims_Cons)
  next
    case False
    have total: "unat ?sz * ?p < 2 ^ 64" using Suc.prems(3) prod by simp
    from False have "1 * ?p \<le> unat ?sz * ?p" by (intro mult_le_mono1) simp
    then have "?p \<le> unat ?sz * ?p" by simp
    then have p: "?p < 2 ^ 64" using total by (rule le_less_trans)
    have tc: "trailing_contiguous sizes strides (Suc k)"
      using Suc.prems by (simp add: trailing_contiguous_def)
    have rest: "row_major_dims (int_dims ?rest)"
      using Suc.hyps(2) k tc p by (intro Suc.hyps(1)) auto
    have stride: "sint ?st = int ?p" if "2 \<le> unat ?sz"
    proof -
      have "2 * ?p \<le> unat ?sz * ?p" using that by (intro mult_le_mono1)
      then have "2 * ?p < 2 ^ 64" using total by (rule le_less_trans)
      then have "?p < 2 ^ 63" by simp
      moreover have "?st = of_nat ?p"
        using Suc.prems k by (simp add: trailing_contiguous_def of_nat_prod_list_unat)
      ultimately show ?thesis by (simp only: sint_of_nat_u64)
    qed
    show ?thesis
      using rest stride by (simp add: split int_dims_Cons fst_rest)
  qed
qed

lemma length_row_major_strides [simp]: "length (row_major_strides ns) = length ns"
  by (induction ns) simp_all

lemma row_major_strides_dims:
  "row_major_dims (zip ns (row_major_strides ns))"
  by (induction ns) simp_all

lemma view_offsets_row_major:
  "dims \<noteq> [] \<Longrightarrow> row_major_dims dims \<Longrightarrow>
   view_offsets dims 0 = map int [0 ..< prod_list (map fst dims)]"
  by (simp add: view_offsets_def offsets_row_major)

lemma flatten_row_major:
  assumes "dims \<noteq> []" "row_major_dims dims"
  shows "flatten buf es dims 0 = take (prod_list (map fst dims) * es) buf"
proof -
  have "flatten buf es dims 0
        = concat (map (\<lambda>e. take es (drop ((0 + e) * es) buf)) [0 ..< prod_list (map fst dims)])"
    using assms by (simp add: flatten_def view_offsets_row_major element_def comp_def)
  then show ?thesis by (simp only: concat_elements) simp
qed

lemma in_bounds_row_major:
  assumes "dims \<noteq> []" "row_major_dims dims" "in_bounds buf es dims 0"
  shows "prod_list (map fst dims) * es \<le> length buf"
proof (cases "prod_list (map fst dims)")
  case 0
  then show ?thesis by simp
next
  case (Suc p)
  then have "int p \<in> set (view_offsets dims 0)"
    using assms by (simp add: view_offsets_row_major)
  with assms(3) have "(nat (int p) + 1) * es \<le> length buf"
    unfolding in_bounds_def by blast
  with Suc show ?thesis by simp
qed


lemma offsets_split:
  "row_major_dims trail \<Longrightarrow>
   offsets (lead @ trail) 0
   = concat (map (\<lambda>r. map (\<lambda>e. r + int e) [0 ..< prod_list (map fst trail)]) (offsets lead 0))"
  by (simp add: offsets_append offsets_row_major cong: map_cong)

lemma in_bounds_split:
  assumes dims: "dims = lead @ trail" "dims \<noteq> []"
    and rm: "row_major_dims trail"
    and pos: "0 < prod_list (map fst trail)"
    and inb: "in_bounds buf es dims 0"
  shows "\<forall>r \<in> set (offsets lead 0).
           0 \<le> r \<and> (nat r + prod_list (map fst trail)) * es \<le> length buf"
proof
  fix r assume r: "r \<in> set (offsets lead 0)"
  let ?p = "prod_list (map fst trail)"
  have vo: "view_offsets dims 0 = offsets (lead @ trail) 0"
    using dims by (auto simp: view_offsets_def)
  have mem: "r + int e \<in> set (view_offsets dims 0)" if "e < ?p" for e
    using r that by (auto simp: vo offsets_split [OF rm] intro!: bexI [of _ r])
  from mem [of 0] pos inb have r0: "0 \<le> r" by (auto simp: in_bounds_def)
  from pos obtain q where q: "?p = Suc q" by (cases ?p) simp_all
  then have "q < ?p" by simp
  from mem [OF this] inb
  have "(nat (r + int q) + 1) * es \<le> length buf" unfolding in_bounds_def by blast
  moreover have "nat (r + int q) + 1 = nat r + ?p" using r0 q by (simp add: nat_add_distrib)
  ultimately have "(nat r + ?p) * es \<le> length buf" by (simp only:)
  with r0 show "0 \<le> r \<and> (nat r + ?p) * es \<le> length buf" by simp
qed

lemma flatten_split:
  assumes dims: "dims = lead @ trail" "dims \<noteq> []"
    and rm: "row_major_dims trail"
    and nonneg: "\<forall>r \<in> set (offsets lead 0). 0 \<le> r"
  shows "flatten buf es dims 0
         = concat (map (\<lambda>r. take (prod_list (map fst trail) * es) (drop (nat r * es) buf))
                     (offsets lead 0))"
proof -
  let ?p = "prod_list (map fst trail)"
  have run: "concat (map (element buf es) (map (\<lambda>e. r + int e) [0 ..< ?p]))
             = take (?p * es) (drop (nat r * es) buf)" if "0 \<le> r" for r
  proof -
    have "map (element buf es) (map (\<lambda>e. r + int e) [0 ..< ?p])
          = map (\<lambda>e. take es (drop ((nat r + e) * es) buf)) [0 ..< ?p]"
      using that by (simp add: element_def nat_add_distrib)
    then show ?thesis by (simp only: concat_elements)
  qed
  have vo: "view_offsets dims 0 = offsets (lead @ trail) 0"
    using dims by (auto simp: view_offsets_def)
  have "flatten buf es dims 0
        = concat (map (\<lambda>r. concat (map (element buf es) (map (\<lambda>e. r + int e) [0 ..< ?p])))
                    (offsets lead 0))"
    by (simp add: flatten_def vo offsets_split [OF rm] map_concat comp_def concat_concat_map)
  also have "\<dots> = concat (map (\<lambda>r. take (?p * es) (drop (nat r * es) buf)) (offsets lead 0))"
    using nonneg run by (auto intro!: arg_cong [where f = concat] map_cong)
  finally show ?thesis .
qed

section \<open>The contiguity analysis\<close>





section \<open>The payload of a valid view\<close>

lemma serialize_whole:
  assumes sizes: "sizes \<noteq> []"
    and an: "analyze (dchecks B) sizes strides = Inr (0, prod_list sizes, prod_list sizes)"
    and ch: "\<not> isChained data" and L: "length (buf_bytes data) < 2 ^ 64"
    and en: "native_order B endianness"
    and fits: "prod_list (map unat sizes) * unat es < 2 ^ 64"
    and inb: "prod_list (map unat sizes) * unat es \<le> length (buf_bytes data)"
  shows "serialize B sizes strides data dtype es endianness sharing
         = Inr (\<lparr>out_dataType = dtype, out_endianness = gMachineEndianness B, out_sizes = sizes,
                 out_data = [applySharingMode
                               (data\<lparr>buf_bytes := take (prod_list (map unat sizes) * unat es)
                                                      (buf_bytes data)\<rparr>) sharing]\<rparr>,
                IOBuf_empty)"
proof -
  let ?n = "prod_list (map unat sizes) * unat es"
  let ?ds = "prod_list sizes * es"
  have u: "unat ?ds = ?n" using fits by (rule unat_prod_bytes)
  have le: "?ds \<le> buf_length data"
    using inb u L by (simp add: word_le_nat_alt unat_buf_length)
  have amount: "unat (buf_length data - ?ds) = length (buf_bytes data) - ?n"
    using le u L by (simp add: unat_sub unat_buf_length)
  have "trimEnd (dchecks B) data (buf_length data - ?ds)
        = Inr (data\<lparr>buf_bytes := take (length (buf_bytes data) - unat (buf_length data - ?ds))
                                 (buf_bytes data)\<rparr>)"
    using L amount by (intro trimEnd_ok) auto
  also have "length (buf_bytes data) - unat (buf_length data - ?ds) = ?n"
    using amount inb by simp
  finally have trim: "trimEnd (dchecks B) data (buf_length data - ?ds)
        = Inr (data\<lparr>buf_bytes := take ?n (buf_bytes data)\<rparr>)" .
  show ?thesis
    using sizes an ch en le trim
    by (auto simp: serialize_def native_order_def Let_def)
qed


lemma dims_from_take:
  "k \<le> length (env_sizes E) \<Longrightarrow> k \<le> length (env_strides E) \<Longrightarrow>
   dims_from E 0 k = take k (zip (env_sizes E) (env_strides E))"
  by (rule nth_equalityI) (simp_all add: dims_from_def)

lemma serialize_general_runs:
  assumes k: "k \<le> length sizes" "k \<le> length strides"
    and nz: "\<forall>d<k. sizes ! d \<noteq> 0"
    and ok: "\<forall>w \<in> set (run_starts (take k (zip sizes strides)) es 0).
               unat w + unat cs \<le> length (buf_bytes data)"
    and L: "length (buf_bytes data) < 2 ^ 64"
  shows "serialize_general dbg sizes strides data es sharing (int k) cs
         = Inr (map (\<lambda>w. \<lparr>chunk_origin = (if mayShare sharing data \<and> kMinCloneSize \<le> cs
                                            then Aliased else Copied),
                          chunk_bytes = take (unat cs) (drop (unat w) (buf_bytes data))\<rparr>)
                  (run_starts (take k (zip sizes strides)) es 0))"
proof -
  let ?E = "\<lparr>env_dbg = dbg, env_data = data, env_sizes = sizes, env_strides = strides,
             env_elementSize = es, env_firstContiguousDim = int k,
             env_contiguousSize = cs, env_mayShare = mayShare sharing data\<rparr>"
  let ?mk = "\<lambda>w. \<lparr>chunk_origin = (if mayShare sharing data \<and> kMinCloneSize \<le> cs
                                     then Aliased else Copied),
                   chunk_bytes = take (unat cs) (drop (unat w) (buf_bytes data))\<rparr>"
  have df: "dims_from ?E 0 k = take k (zip sizes strides)"
    using k by (simp add: dims_from_take)
  have "odometer ?E (int k) (replicate k 0) 0 []
        = odometer ?E (int 0 - 1) (replicate k 0) 0
            ([] @ map ?mk (run_starts (dims_from ?E 0 k) es 0))"
  proof (rule odometer_block)
    show "\<forall>w\<in>set (run_starts (dims_from ?E 0 k) es 0).
            emit (env_dbg ?E) (env_data ?E) (env_mayShare ?E) w (env_contiguousSize ?E)
            = Inr (?mk w)"
      using ok L by (simp add: df emit_ok)
  qed (use k nz in simp_all)
  then show ?thesis
    by (simp add: serialize_general_def df odometer_done)
qed


lemma int_dims_append: "int_dims (xs @ ys) = int_dims xs @ int_dims ys"
  by (simp add: int_dims_def)

lemma general_bytes:
  fixes zs :: "(u64 \<times> u64) list"
  assumes k: "0 < k" "k \<le> length zs"
    and rm: "row_major_dims (int_dims (drop k zs))"
    and pos: "0 < prod_list (map fst (int_dims (drop k zs)))"
    and inb: "in_bounds buf (unat es) (int_dims zs) 0"
    and L: "length buf < 2 ^ 64"
    and cs: "unat cs = prod_list (map fst (int_dims (drop k zs))) * unat es"
  shows "(\<forall>w \<in> set (run_starts (take k zs) es 0). unat w + unat cs \<le> length buf) \<and>
         concat (map (\<lambda>w. take (unat cs) (drop (unat w) buf)) (run_starts (take k zs) es 0))
         = flatten buf (unat es) (int_dims zs) 0"
proof -
  let ?lead = "int_dims (take k zs)" and ?trail = "int_dims (drop k zs)"
  let ?p = "prod_list (map fst ?trail)"
  have dims: "int_dims zs = ?lead @ ?trail"
    by (simp add: int_dims_append [symmetric])
  have ne: "int_dims zs \<noteq> []" using k by (auto simp: int_dims_def)
  have b: "\<forall>r \<in> set (offsets ?lead 0). 0 \<le> r \<and> (nat r + ?p) * unat es \<le> length buf"
    using dims ne rm pos inb by (rule in_bounds_split)
  have rs: "run_starts (take k zs) es 0 = map (\<lambda>r. of_int r * es) (offsets ?lead 0)"
    using run_starts_offsets [of "take k zs" es 0] by simp
  have un: "unat (of_int r * es :: u64) = nat r * unat es" if "r \<in> set (offsets ?lead 0)" for r
  proof -
    from b that have r0: "0 \<le> r" and le: "(nat r + ?p) * unat es \<le> length buf" by auto
    have "nat r * unat es \<le> (nat r + ?p) * unat es" by (intro mult_le_mono1) simp
    also note le
    also note L
    finally have small: "nat r * unat es < 2 ^ 64" .
    have "(of_int r :: u64) = of_nat (nat r)" using r0 by simp
    then have "(of_int r * es :: u64) = of_nat (nat r * unat es)" by simp
    then show ?thesis using small by (simp only: unat_of_nat_u64)
  qed
  have 1: "\<forall>w \<in> set (run_starts (take k zs) es 0). unat w + unat cs \<le> length buf"
  proof
    fix w assume "w \<in> set (run_starts (take k zs) es 0)"
    then obtain r where r: "r \<in> set (offsets ?lead 0)" and w: "w = of_int r * es"
      unfolding rs by auto
    from b r have "(nat r + ?p) * unat es \<le> length buf" by auto
    moreover have "unat w = nat r * unat es" using un [OF r] w by simp
    ultimately show "unat w + unat cs \<le> length buf"
      by (simp add: cs add_mult_distrib)
  qed
  have "concat (map (\<lambda>w. take (unat cs) (drop (unat w) buf)) (run_starts (take k zs) es 0))
        = concat (map (\<lambda>r. take (?p * unat es) (drop (nat r * unat es) buf)) (offsets ?lead 0))"
    unfolding rs by (auto simp: comp_def un cs intro!: arg_cong [where f = concat] map_cong)
  also have "\<dots> = flatten buf (unat es) (int_dims zs) 0"
    using dims ne rm b by (intro flatten_split [symmetric]) auto
  finally show ?thesis using 1 by blast
qed


lemma view_dims_strides:
  "strides \<noteq> [] \<Longrightarrow> view_dims sizes strides = int_dims (zip sizes strides)"
  by (simp add: view_dims_def int_dims_def zip_map_map)

lemma prod_list_unat_pos: "0 \<notin> set xs \<Longrightarrow> 0 < prod_list (map unat (xs :: u64 list))"
  by (induction xs) (auto simp: unat_gt_0)

lemma prod_list_take_drop: "prod_list (take k xs) * prod_list (drop k xs) = prod_list (xs :: 'a :: monoid_mult list)"
  by (metis append_take_drop_id prod_list.append)

lemma analyze_whole_run:
  assumes "strides \<noteq> []" "length strides = length sizes" "trailing_contiguous sizes strides 0"
  shows "analyze dbg sizes strides = Inr (0, prod_list sizes, prod_list sizes)"
proof -
  from analyze_nonempty [OF assms(1,2), of dbg] obtain k where
    k: "analyze dbg sizes strides
        = Inr (int k, prod_list (drop k sizes), prod_list (take k sizes) * prod_list (drop k sizes))"
       "k \<le> length sizes" "0 < k \<longrightarrow> strides ! (k - 1) \<noteq> prod_list (drop k sizes)"
    by blast
  have "k = 0"
  proof (rule ccontr)
    assume "k \<noteq> 0"
    then have "strides ! (k - 1) = prod_list (drop (Suc (k - 1)) sizes)"
      using assms(3) k(2) by (simp add: trailing_contiguous_def)
    with \<open>k \<noteq> 0\<close> k(3) show False by simp
  qed
  with k(1) show ?thesis by simp
qed

lemma run_starts_nonempty: "0 \<notin> set (map fst dims) \<Longrightarrow> run_starts dims es src \<noteq> []"
proof (induction dims arbitrary: src)
  case Nil
  show ?case by simp
next
  case (Cons d dims)
  obtain sz st where d: "d = (sz, st)" by (cases d)
  from Cons.prems d have "0 < unat sz" by (auto simp: unat_gt_0)
  then have "[0 ..< unat sz] = 0 # [Suc 0 ..< unat sz]" by (simp add: upt_conv_Cons)
  moreover have "run_starts dims es (src + of_nat 0 * st * es) \<noteq> []"
    using Cons.prems by (intro Cons.IH) simp
  ultimately show ?case by (simp add: d)
qed

lemma serialize_payload:
  assumes v: "valid_view sizes strides data es" and en: "native_order B endianness"
    and z: "0 \<notin> set sizes \<or> whole_run sizes strides"
  shows "\<exists>out data1. serialize B sizes strides data dtype es endianness sharing = Inr (out, data1) \<and>
           payload out = flatten (buf_bytes data) (unat es) (view_dims sizes strides) 0 \<and>
           out_sizes out = sizes \<and> out_dataType out = dtype \<and>
           out_endianness out = gMachineEndianness B"
proof -
  let ?buf = "buf_bytes data" and ?E = "unat es"
  let ?P = "prod_list (map unat sizes)"
  from v have ch: "\<not> isChained data" and L: "length ?buf < 2 ^ 64"
    and len: "strides = [] \<or> length strides = length sizes"
    and fits: "?P * ?E < 2 ^ 64"
    and inb: "in_bounds ?buf ?E (view_dims sizes strides) 0"
    and E: "0 < ?E"
    by (simp_all add: valid_view_def unat_gt_0)
  have small: "n < 2 ^ 64" if "n \<le> ?P" for n
  proof -
    from E have "n * 1 \<le> n * ?E" by (intro mult_le_mono2) simp
    also have "n * ?E \<le> ?P * ?E" using that by (intro mult_le_mono1)
    also note fits
    finally show ?thesis by simp
  qed
  have whole: ?thesis
    if an: "analyze (dchecks B) sizes strides = Inr (0, prod_list sizes, prod_list sizes)"
      and rm: "row_major_dims (view_dims sizes strides)"
      and fst: "map fst (view_dims sizes strides) = map unat sizes"
      and ne: "sizes \<noteq> []"
  proof -
    have dne: "view_dims sizes strides \<noteq> []" using fst ne by auto
    have le: "?P * ?E \<le> length ?buf"
      using in_bounds_row_major [OF dne rm inb] by (simp add: fst)
    have fl: "flatten ?buf ?E (view_dims sizes strides) 0 = take (?P * ?E) ?buf"
      using flatten_row_major [OF dne rm] by (simp add: fst)
    show ?thesis
      using serialize_whole [OF ne an ch L en fits le, of dtype sharing] fl
      by (simp add: payload_def applySharingMode_def)
  qed
  show ?thesis
  proof (cases "sizes = []")
    case True
    with len have st: "strides = []" by auto
    have "view_dims [] [] = []" by (simp add: view_dims_def)
    then show ?thesis
      using True st ch en
      by (auto simp: serialize_def analyze_empty native_order_def payload_def flatten_def
            view_offsets_def)
  next
    case ne: False
    show ?thesis
    proof (cases "strides = []")
      case True
      have "row_major_dims (view_dims sizes strides)"
        using True by (simp add: view_dims_def row_major_strides_dims)
      moreover have "map fst (view_dims sizes strides) = map unat sizes"
        using True by (simp add: view_dims_def)
      ultimately show ?thesis
        using whole True ne by (simp add: analyze_empty)
    next
      case False
      with len have len': "length strides = length sizes" by simp
      have vd: "view_dims sizes strides = int_dims (zip sizes strides)"
        using False by (rule view_dims_strides)
      have fst0: "map fst (view_dims sizes strides) = map unat sizes"
        using map_fst_int_dims [OF len', of 0] by (simp add: vd)
      show ?thesis
      proof (cases "trailing_contiguous sizes strides 0")
        case True
        have "prod_list (map unat (drop 0 sizes)) < 2 ^ 64"
          using small [of ?P] by simp
        then have "row_major_dims (int_dims (drop 0 (zip sizes strides)))"
          using True len' by (intro row_major_from_trailing) auto
        then show ?thesis
          using whole analyze_whole_run [OF False len' True] fst0 ne by (simp add: vd)
      next
        case nw: False
        with z False have nz: "0 \<notin> set sizes" by (simp add: whole_run_def)
        from analyze_nonempty [OF False len', of "dchecks B"] obtain k where
          an: "analyze (dchecks B) sizes strides
               = Inr (int k, prod_list (drop k sizes),
                      prod_list (take k sizes) * prod_list (drop k sizes))"
          and k: "k \<le> length sizes" and tc: "trailing_contiguous sizes strides k"
          by blast
        from tc nw have k0: "0 < k" by (cases k) auto
        let ?zs = "zip sizes strides"
        let ?Pt = "prod_list (map unat (drop k sizes))"
        let ?Pl = "prod_list (map unat (take k sizes))"
        let ?cs = "prod_list (drop k sizes) * es"
        let ?mk = "\<lambda>w. \<lparr>chunk_origin = (if mayShare sharing data \<and> kMinCloneSize \<le> ?cs
                                          then Aliased else Copied),
                         chunk_bytes = take (unat ?cs) (drop (unat w) ?buf)\<rparr>"
        have P: "?P = ?Pl * ?Pt"
          using prod_list_take_drop [of k "map unat sizes"] by (simp add: take_map drop_map)
        have "0 \<notin> set (take k sizes)" "0 \<notin> set (drop k sizes)"
          using nz by (auto dest: in_set_takeD in_set_dropD)
        then have pl: "0 < ?Pl" and pt: "0 < ?Pt" by (simp_all add: prod_list_unat_pos)
        from pl have "1 * ?Pt \<le> ?Pl * ?Pt" by (intro mult_le_mono1) simp
        then have ptP: "?Pt \<le> ?P" using P by simp
        then have ptE: "?Pt * ?E \<le> ?P * ?E" by (intro mult_le_mono1)
        then have fits_t: "?Pt * ?E < 2 ^ 64" using fits by (rule le_less_trans)
        have ucs: "unat ?cs = ?Pt * ?E" using fits_t by (rule unat_prod_bytes)
        have "prod_list (take k sizes) * prod_list (drop k sizes) * es = prod_list sizes * es"
          by (simp add: prod_list_take_drop)
        then have uds: "unat (prod_list (take k sizes) * prod_list (drop k sizes) * es) = ?P * ?E"
          using unat_prod_bytes [OF fits] by simp
        have dcheck: "?cs \<le> prod_list (take k sizes) * prod_list (drop k sizes) * es"
          using ptE by (simp only: word_le_nat_alt ucs uds)
        have fst_t: "map fst (int_dims (drop k ?zs)) = map unat (drop k sizes)"
          using len' by (rule map_fst_int_dims)
        have rm: "row_major_dims (int_dims (drop k ?zs))"
          using len' k tc small [OF ptP] by (intro row_major_from_trailing)
        have gb: "(\<forall>w \<in> set (run_starts (take k ?zs) es 0). unat w + unat ?cs \<le> length ?buf) \<and>
             concat (map (\<lambda>w. take (unat ?cs) (drop (unat w) ?buf)) (run_starts (take k ?zs) es 0))
             = flatten ?buf ?E (int_dims ?zs) 0"
          using k0 k len' rm pt inb L ucs
          by (intro general_bytes) (simp_all add: fst_t vd)
        have nzd: "\<forall>d<k. sizes ! d \<noteq> 0"
          using nz k by (metis nth_mem order_less_le_trans)
        have gen: "serialize_general (dchecks B) sizes strides data es sharing (int k) ?cs
                   = Inr (map ?mk (run_starts (take k ?zs) es 0))"
          using k len' nzd gb L by (intro serialize_general_runs) auto
        have "map fst (take k ?zs) = take k sizes"
          using len' by (simp add: take_map [symmetric])
        with \<open>0 \<notin> set (take k sizes)\<close> have "run_starts (take k ?zs) es 0 \<noteq> []"
          by (intro run_starts_nonempty) simp
        then obtain w ws where ws: "run_starts (take k ?zs) es 0 = w # ws"
          by (cases "run_starts (take k ?zs) es 0") auto
        with gb have "unat w + unat ?cs \<le> length ?buf" by simp
        moreover have "0 < unat ?cs" using ucs pt E by simp
        ultimately have "take (unat ?cs) (drop (unat w) ?buf) \<noteq> []" by auto
        then have some: "concat (map chunk_bytes (map ?mk (run_starts (take k ?zs) es 0))) \<noteq> []"
          unfolding ws by simp
        have "serialize B sizes strides data dtype es endianness sharing
              = Inr (\<lparr>out_dataType = dtype, out_endianness = gMachineEndianness B,
                      out_sizes = sizes, out_data = map ?mk (run_starts (take k ?zs) es 0)\<rparr>, data)"
          using an ch en dcheck ne k0
          by (auto simp: serialize_def native_order_def Let_def gen some simp del: map_map concat_eq_Nil_conv)
        moreover have "concat (map chunk_bytes (map ?mk (run_starts (take k ?zs) es 0)))
                       = flatten ?buf ?E (view_dims sizes strides) 0"
          using gb by (simp add: comp_def vd)
        ultimately show ?thesis by (simp add: payload_def)
      qed
    qed
  qed
qed

lemma trailing_contiguous_mono:
  "trailing_contiguous sizes strides j \<Longrightarrow> j \<le> k \<Longrightarrow> trailing_contiguous sizes strides k"
  by (simp add: trailing_contiguous_def)

lemma serialize_general_forced:
  assumes v: "valid_view sizes strides data es"
    and st: "strides \<noteq> []" and tc: "trailing_contiguous sizes strides 0"
    and nz: "0 \<notin> set sizes" and k: "0 < k" "k \<le> length sizes"
  shows "\<exists>outQueue. serialize_general dbg sizes strides data es sharing (int k)
                       (prod_list (drop k sizes) * es) = Inr outQueue \<and>
           concat (map chunk_bytes outQueue)
           = flatten (buf_bytes data) (unat es) (view_dims sizes strides) 0"
proof -
  let ?buf = "buf_bytes data" and ?E = "unat es"
  let ?P = "prod_list (map unat sizes)"
  let ?zs = "zip sizes strides"
  let ?Pt = "prod_list (map unat (drop k sizes))"
  let ?Pl = "prod_list (map unat (take k sizes))"
  let ?cs = "prod_list (drop k sizes) * es"
  let ?mk = "\<lambda>w. \<lparr>chunk_origin = (if mayShare sharing data \<and> kMinCloneSize \<le> ?cs
                                    then Aliased else Copied),
                   chunk_bytes = take (unat ?cs) (drop (unat w) ?buf)\<rparr>"
  from v st have L: "length ?buf < 2 ^ 64"
    and len': "length strides = length sizes"
    and fits: "?P * ?E < 2 ^ 64"
    and inb: "in_bounds ?buf ?E (view_dims sizes strides) 0"
    and E: "0 < ?E"
    by (simp_all add: valid_view_def unat_gt_0)
  have vd: "view_dims sizes strides = int_dims ?zs"
    using st by (rule view_dims_strides)
  have P: "?P = ?Pl * ?Pt"
    using prod_list_take_drop [of k "map unat sizes"] by (simp add: take_map drop_map)
  have "0 \<notin> set (take k sizes)" "0 \<notin> set (drop k sizes)"
    using nz by (auto dest: in_set_takeD in_set_dropD)
  then have pl: "0 < ?Pl" and pt: "0 < ?Pt" by (simp_all add: prod_list_unat_pos)
  from pl have "1 * ?Pt \<le> ?Pl * ?Pt" by (intro mult_le_mono1) simp
  then have ptP: "?Pt \<le> ?P" using P by simp
  then have ptE: "?Pt * ?E \<le> ?P * ?E" by (intro mult_le_mono1)
  then have fits_t: "?Pt * ?E < 2 ^ 64" using fits by (rule le_less_trans)
  from E have "?Pt * 1 \<le> ?Pt * ?E" by (intro mult_le_mono2) simp
  then have "?Pt \<le> ?Pt * ?E" by simp
  then have small: "?Pt < 2 ^ 64" using fits_t by (rule le_less_trans)
  have ucs: "unat ?cs = ?Pt * ?E" using fits_t by (rule unat_prod_bytes)
  have fst_t: "map fst (int_dims (drop k ?zs)) = map unat (drop k sizes)"
    using len' by (rule map_fst_int_dims)
  have rm: "row_major_dims (int_dims (drop k ?zs))"
    using len' k trailing_contiguous_mono [OF tc, of k] small
    by (intro row_major_from_trailing) auto
  have gb: "(\<forall>w \<in> set (run_starts (take k ?zs) es 0). unat w + unat ?cs \<le> length ?buf) \<and>
       concat (map (\<lambda>w. take (unat ?cs) (drop (unat w) ?buf)) (run_starts (take k ?zs) es 0))
       = flatten ?buf ?E (int_dims ?zs) 0"
    using k len' rm pt inb L ucs
    by (intro general_bytes) (simp_all add: fst_t vd)
  have nzd: "\<forall>d<k. sizes ! d \<noteq> 0"
    using nz k by (metis nth_mem order_less_le_trans)
  have gen: "serialize_general dbg sizes strides data es sharing (int k) ?cs
             = Inr (map ?mk (run_starts (take k ?zs) es 0))"
    using k len' nzd gb L by (intro serialize_general_runs) auto
  moreover have "concat (map chunk_bytes (map ?mk (run_starts (take k ?zs) es 0)))
                 = flatten ?buf ?E (view_dims sizes strides) 0"
    using gb by (simp add: comp_def vd)
  ultimately show ?thesis by blast
qed

lemma serialize_source_after:
  assumes "serialize B sizes strides data dtype es endianness sharing = Inr (out, data1)"
    and "analyze (dchecks B) sizes strides = Inr (fcd, ce, de)"
  shows "data1 = (if sizes = [] \<or> fcd = 0 then IOBuf_empty else data)"
  using assms
  by (auto simp: serialize_def Let_def split: if_splits sum.splits)

lemma offsets_shift: "offsets dims (base + c) = map (\<lambda>off. off + c) (offsets dims base)"
proof (induction dims arbitrary: base)
  case Nil
  show ?case by simp
next
  case (Cons d dims)
  obtain n stride where d: "d = (n, stride)" by (cases d)
  have eq: "base + c + int i * stride = base + int i * stride + c" for i by simp
  have "offsets dims (base + c + int i * stride)
        = map (\<lambda>off. off + c) (offsets dims (base + int i * stride))" for i
    unfolding eq by (rule Cons.IH)
  then show ?case
    by (simp add: d map_concat comp_def)
qed

lemma flatten_base:
  assumes "in_bounds (drop (b * es) buf) es dims 0"
  shows "flatten buf es dims (int b) = flatten (drop (b * es) buf) es dims 0"
proof -
  have vo: "view_offsets dims (int b) = map (\<lambda>off. off + int b) (view_offsets dims 0)"
    using offsets_shift [of dims 0 "int b"] by (simp add: view_offsets_def)
  have "element buf es (off + int b) = element (drop (b * es) buf) es off"
    if "off \<in> set (view_offsets dims 0)" for off
  proof -
    from assms that have "0 \<le> off" by (auto simp: in_bounds_def)
    then have "nat (off + int b) = nat off + b" by simp
    then show ?thesis by (simp add: element_def add_mult_distrib)
  qed
  then show ?thesis
    by (auto simp: flatten_def vo comp_def intro!: arg_cong [where f = concat] map_cong)
qed

lemma Tensor_serialize_payload:
  assumes off: "unat (t_storageOffset T) * unat es < 2 ^ 64"
      "unat (t_storageOffset T) * unat es \<le> length (buf_bytes (t_storage T))"
    and L: "length (buf_bytes (t_storage T)) < 2 ^ 64"
    and v: "valid_view (t_sizes T) (t_strides T)
              ((t_storage T)\<lparr>buf_bytes := drop (unat (t_storageOffset T) * unat es)
                                              (buf_bytes (t_storage T))\<rparr>) es"
    and en: "native_order B endianness"
    and z: "0 \<notin> set (t_sizes T) \<or> whole_run (t_sizes T) (t_strides T)"
  shows "\<exists>out. Tensor_serialize B T dtype es endianness sharing = Inr out \<and>
           payload out = flatten (buf_bytes (t_storage T)) (unat es)
                           (view_dims (t_sizes T) (t_strides T)) (int (unat (t_storageOffset T)))"
proof -
  let ?b = "unat (t_storageOffset T)"
  let ?data = "(t_storage T)\<lparr>buf_bytes := drop (?b * unat es) (buf_bytes (t_storage T))\<rparr>"
  have "t_storageOffset T * es = of_nat (?b * unat es)" by simp
  then have u: "unat (t_storageOffset T * es) = ?b * unat es"
    using off(1) by (simp only: unat_of_nat_u64)
  have trim: "trimStart (dchecks B) (t_storage T) (t_storageOffset T * es) = Inr ?data"
    using trimStart_ok [OF L, of "t_storageOffset T * es" "dchecks B"] off(2) u by simp
  from serialize_payload [OF v en z, of dtype sharing] obtain out data1 where
    s: "serialize B (t_sizes T) (t_strides T) ?data dtype es endianness sharing = Inr (out, data1)"
       "payload out = flatten (buf_bytes ?data) (unat es) (view_dims (t_sizes T) (t_strides T)) 0"
    by blast
  have "in_bounds (drop (?b * unat es) (buf_bytes (t_storage T))) (unat es)
          (view_dims (t_sizes T) (t_strides T)) 0"
    using v by (simp add: valid_view_def)
  from flatten_base [OF this] s trim show ?thesis
    by (simp add: Tensor_serialize_def)
qed

section \<open>The empty tensor\<close>

lemma contiguous_scan_negative:
  "i < 0 \<Longrightarrow> contiguous_scan sizes strides i c = Inr (i, c)"
  by (subst contiguous_scan.simps) simp

lemma analyze_no_dims:
  "\<not> (dbg \<and> strides \<noteq> []) \<Longrightarrow> analyze dbg [] strides = Inr (0, 1, 1)"
  by (simp add: analyze_def contiguous_scan_negative)

text \<open>
  Claim C7. A call with no dimensions that meets the contract (a single buffer, a byte
  order that is native or the machine's, and no strides) returns, for every sharing mode
  and data type, a wire tensor with no sizes and a payload of length 0, and leaves the
  source buffer cleared.
\<close>

theorem serialize_no_dims:
  assumes "\<not> (dchecks B \<and> isChained data)"
    and "endianness = NATIVE \<or> endianness = gMachineEndianness B"
    and "\<not> (dchecks B \<and> strides \<noteq> [])"
  shows "\<exists>out. serialize B [] strides data dtype elementSize endianness sharing
                 = Inr (out, IOBuf_empty) \<and>
               out_sizes out = [] \<and> out_data out = [] \<and> length (payload out) = 0 \<and>
               out_dataType out = dtype \<and> out_endianness out = gMachineEndianness B"
  using assms by (auto simp: serialize_def analyze_no_dims payload_def)

theorem serialize_no_dims_witness:
  "\<exists>out. serialize \<lparr>dchecks = True, gMachineEndianness = LITTLE\<rparr> [] []
            \<lparr>buf_bytes = [1, 2, 3], isChained = False, isManagedOne = True\<rparr>
            (0 :: nat) 4 NATIVE SHARE_ALL = Inr (out, IOBuf_empty) \<and>
         out_sizes out = [] \<and> out_data out = [] \<and> length (payload out) = 0 \<and>
         out_dataType out = 0 \<and> out_endianness out = LITTLE"
  using serialize_no_dims [of "\<lparr>dchecks = True, gMachineEndianness = LITTLE\<rparr>"
      "\<lparr>buf_bytes = [1, 2, 3], isChained = False, isManagedOne = True\<rparr>" NATIVE "[]"
      "0 :: nat" 4 SHARE_ALL]
  by simp

section \<open>Reconstruction\<close>

lemma serialize_dataType:
  "serialize B sizes strides data dtype elementSize endianness sharing = Inr (out, data1)
   \<Longrightarrow> out_dataType out = dtype \<and> out_sizes out = sizes"
  by (auto simp: serialize_def Let_def split: if_splits sum.splits prod.splits)

lemma Tensor_serialize_dataType:
  "Tensor_serialize B T dtype elementSize endianness sharing = Inr out
   \<Longrightarrow> out_dataType out = dtype \<and> out_sizes out = t_sizes T"
  by (auto simp: Tensor_serialize_def split: sum.splits prod.splits dest: serialize_dataType)

text \<open>
  Claim C10. Whenever a tensor is rebuilt from a wire tensor, it is built on the payload
  with storage offset 0 and no strides (the null stride pointer, which stands for the
  row-major ones); this holds for every wire tensor of the expected data type, and so for
  what serializing any tensor gives, whatever its storage offset and strides were.
\<close>

theorem deserializeTH_offset_and_strides:
  "(\<forall>r. deserializeTH dtype thriftTensor sharing = Inr r \<longrightarrow>
        th_storageOffset r = 0 \<and> th_stride r = None) \<and>
   (out_dataType thriftTensor = dtype \<longrightarrow>
      deserializeTH dtype thriftTensor sharing
        = Inr \<lparr>th_storage = payload thriftTensor, th_storageOffset = 0,
               th_size = out_sizes thriftTensor, th_stride = None\<rparr>) \<and>
   (Tensor_serialize B T dtype elementSize endianness sharing1 = Inr thriftTensor \<longrightarrow>
      deserializeTH dtype thriftTensor sharing
        = Inr \<lparr>th_storage = payload thriftTensor, th_storageOffset = 0,
               th_size = t_sizes T, th_stride = None\<rparr>)"
  by (auto simp: deserializeTH_def deserialize_def dest: Tensor_serialize_dataType)

theorem deserializeTH_offset_and_strides_witness:
  "Tensor_serialize \<lparr>dchecks = True, gMachineEndianness = LITTLE\<rparr>
     \<lparr>t_storage = \<lparr>buf_bytes = [8, 9, 10, 11, 12, 13], isChained = False, isManagedOne = True\<rparr>,
      t_storageOffset = 2, t_sizes = [2, 2], t_strides = [1, 2]\<rparr>
     (0 :: nat) 1 NATIVE SHARE_NONE
   = Inr \<lparr>out_dataType = 0, out_endianness = LITTLE, out_sizes = [2, 2],
          out_data = [\<lparr>chunk_origin = Copied, chunk_bytes = [10]\<rparr>,
                      \<lparr>chunk_origin = Copied, chunk_bytes = [12]\<rparr>,
                      \<lparr>chunk_origin = Copied, chunk_bytes = [11]\<rparr>,
                      \<lparr>chunk_origin = Copied, chunk_bytes = [13]\<rparr>]\<rparr> \<and>
   deserializeTH (0 :: nat)
     \<lparr>out_dataType = 0, out_endianness = LITTLE, out_sizes = [2, 2],
      out_data = [\<lparr>chunk_origin = Copied, chunk_bytes = [10]\<rparr>,
                  \<lparr>chunk_origin = Copied, chunk_bytes = [12]\<rparr>,
                  \<lparr>chunk_origin = Copied, chunk_bytes = [11]\<rparr>,
                  \<lparr>chunk_origin = Copied, chunk_bytes = [13]\<rparr>]\<rparr> SHARE_ALL
   = Inr \<lparr>th_storage = [10, 12, 11, 13], th_storageOffset = 0, th_size = [2, 2],
          th_stride = None\<rparr>"
proof -
  let ?B = "\<lparr>dchecks = True, gMachineEndianness = LITTLE\<rparr>"
  let ?T = "\<lparr>t_storage = \<lparr>buf_bytes = [8, 9, 10, 11, 12, 13], isChained = False,
                            isManagedOne = True\<rparr>,
              t_storageOffset = 2, t_sizes = [2, 2], t_strides = [1, 2]\<rparr>"
  let ?t = "\<lparr>out_dataType = 0 :: nat, out_endianness = LITTLE, out_sizes = [2, 2],
      out_data = [\<lparr>chunk_origin = Copied, chunk_bytes = [10]\<rparr>,
                  \<lparr>chunk_origin = Copied, chunk_bytes = [12]\<rparr>,
                  \<lparr>chunk_origin = Copied, chunk_bytes = [11]\<rparr>,
                  \<lparr>chunk_origin = Copied, chunk_bytes = [13]\<rparr>]\<rparr>"
  have 1: "Tensor_serialize ?B ?T (0 :: nat) 1 NATIVE SHARE_NONE = Inr ?t"
    by code_simp
  have p: "payload ?t = [10, 12, 11, 13]" by (simp add: payload_def)
  have "deserializeTH (0 :: nat) ?t SHARE_ALL
        = Inr \<lparr>th_storage = payload ?t, th_storageOffset = 0, th_size = t_sizes ?T,
               th_stride = None\<rparr>"
    using deserializeTH_offset_and_strides [of "0 :: nat" ?t SHARE_ALL ?B ?T 1 NATIVE SHARE_NONE] 1
    by blast
  then have 2: "deserializeTH (0 :: nat) ?t SHARE_ALL
        = Inr \<lparr>th_storage = [10, 12, 11, 13], th_storageOffset = 0, th_size = [2, 2],
               th_stride = None\<rparr>"
    unfolding p by simp
  show ?thesis
    apply (intro conjI)
     apply (rule 1)
    apply (rule 2)
    done
qed

section \<open>Round trip, canonical payload, sharing\<close>

text \<open>
  Claim C1, amended. For a view that is consistent with a single contiguous backing
  buffer and has no dimension of size zero (or whose strides are empty or row-major
  throughout), and for every sharing mode, serialize returns a payload that is byte for
  byte the row-major flattening of the elements the view addresses, and deserialize gives
  these bytes back unchanged. The same holds for a tensor with a storage offset: the
  flattening then starts at the offset. In particular the shape [2, 3] with strides
  [1, 2] over the buffer [a, b, c, d, e, f] gives a, c, e, b, d, f.
\<close>

theorem serialize_roundtrip:
  "(valid_view sizes strides data elementSize \<and> native_order B endianness \<and>
    (0 \<notin> set sizes \<or> whole_run sizes strides) \<longrightarrow>
      (\<exists>out data1.
         serialize B sizes strides data dtype elementSize endianness sharing = Inr (out, data1) \<and>
         payload out = flatten (buf_bytes data) (unat elementSize) (view_dims sizes strides) 0 \<and>
         deserialize out dtype
           = Inr (flatten (buf_bytes data) (unat elementSize) (view_dims sizes strides) 0))) \<and>
   (unat (t_storageOffset T) * unat elementSize < 2 ^ 64 \<and>
    unat (t_storageOffset T) * unat elementSize \<le> length (buf_bytes (t_storage T)) \<and>
    length (buf_bytes (t_storage T)) < 2 ^ 64 \<and>
    valid_view (t_sizes T) (t_strides T)
      ((t_storage T)\<lparr>buf_bytes := drop (unat (t_storageOffset T) * unat elementSize)
                                      (buf_bytes (t_storage T))\<rparr>) elementSize \<and>
    native_order B endianness \<and>
    (0 \<notin> set (t_sizes T) \<or> whole_run (t_sizes T) (t_strides T)) \<longrightarrow>
      (\<exists>out.
         Tensor_serialize B T dtype elementSize endianness sharing = Inr out \<and>
         payload out = flatten (buf_bytes (t_storage T)) (unat elementSize)
                         (view_dims (t_sizes T) (t_strides T))
                         (int (unat (t_storageOffset T))))) \<and>
   (\<exists>out data1.
      serialize B [2, 3] [1, 2] \<lparr>buf_bytes = [a, b, c, d, e, f], isChained = False, isManagedOne = m\<rparr>
        dtype 1 NATIVE sharing = Inr (out, data1) \<and>
      payload out = [a, c, e, b, d, f])"
proof (intro conjI impI)
  assume "valid_view sizes strides data elementSize \<and> native_order B endianness \<and>
    (0 \<notin> set sizes \<or> whole_run sizes strides)"
  then obtain out data1 where
    "serialize B sizes strides data dtype elementSize endianness sharing = Inr (out, data1)"
    "payload out = flatten (buf_bytes data) (unat elementSize) (view_dims sizes strides) 0"
    "out_dataType out = dtype"
    using serialize_payload [of sizes strides data elementSize B endianness dtype sharing]
    by blast
  then show "\<exists>out data1.
         serialize B sizes strides data dtype elementSize endianness sharing = Inr (out, data1) \<and>
         payload out = flatten (buf_bytes data) (unat elementSize) (view_dims sizes strides) 0 \<and>
         deserialize out dtype
           = Inr (flatten (buf_bytes data) (unat elementSize) (view_dims sizes strides) 0)"
    by (auto simp: deserialize_def)
next
  assume "unat (t_storageOffset T) * unat elementSize < 2 ^ 64 \<and>
    unat (t_storageOffset T) * unat elementSize \<le> length (buf_bytes (t_storage T)) \<and>
    length (buf_bytes (t_storage T)) < 2 ^ 64 \<and>
    valid_view (t_sizes T) (t_strides T)
      ((t_storage T)\<lparr>buf_bytes := drop (unat (t_storageOffset T) * unat elementSize)
                                      (buf_bytes (t_storage T))\<rparr>) elementSize \<and>
    native_order B endianness \<and>
    (0 \<notin> set (t_sizes T) \<or> whole_run (t_sizes T) (t_strides T))"
  then show "\<exists>out.
         Tensor_serialize B T dtype elementSize endianness sharing = Inr out \<and>
         payload out = flatten (buf_bytes (t_storage T)) (unat elementSize)
                         (view_dims (t_sizes T) (t_strides T))
                         (int (unat (t_storageOffset T)))"
    using Tensor_serialize_payload [of T elementSize B endianness dtype sharing] by blast
next
  let ?data = "\<lparr>buf_bytes = [a, b, c, d, e, f], isChained = False, isManagedOne = m\<rparr>"
  have vo: "view_offsets (view_dims [2, 3] [1, 2]) 0 = [0, 2, 4, 1, 3, 5]"
    by (simp add: view_offsets_def view_dims_def upt_conv_Cons)
  have "valid_view [2, 3] [1, 2] ?data 1"
    by (simp add: valid_view_def in_bounds_def vo)
  moreover have "native_order B NATIVE" by (simp add: native_order_def)
  moreover have "flatten [a, b, c, d, e, f] (unat (1 :: u64)) (view_dims [2, 3] [1, 2]) 0
                 = [a, c, e, b, d, f]"
    by (simp add: flatten_def vo element_def)
  ultimately show "\<exists>out data1.
      serialize B [2, 3] [1, 2] ?data dtype 1 NATIVE sharing = Inr (out, data1) \<and>
      payload out = [a, c, e, b, d, f]"
    using serialize_payload [of "[2, 3]" "[1, 2]" ?data 1 B NATIVE dtype sharing]
    by auto
qed

text \<open>
  The claim as stated fails for a shape with a dimension of size zero whose strides are not
  row-major: the logical array is empty, yet serialize does not return the empty payload;
  the assertion on the sizes of the run aborts the call in a debug build, and without it
  the traversal reads past the buffer.
\<close>

theorem serialize_roundtrip_counterexample:
  "valid_view [0, 3] [5, 1]
     \<lparr>buf_bytes = [10, 11, 12, 13, 14, 15], isChained = False, isManagedOne = True\<rparr> 1 \<and>
   native_order \<lparr>dchecks = True, gMachineEndianness = LITTLE\<rparr> NATIVE \<and>
   flatten [10, 11, 12, 13, 14, 15] (unat (1 :: u64)) (view_dims [0, 3] [5, 1]) 0 = [] \<and>
   serialize \<lparr>dchecks = True, gMachineEndianness = LITTLE\<rparr> [0, 3] [5, 1]
     \<lparr>buf_bytes = [10, 11, 12, 13, 14, 15], isChained = False, isManagedOne = True\<rparr>
     (0 :: nat) 1 NATIVE SHARE_NONE = Inl CheckFailed \<and>
   serialize \<lparr>dchecks = False, gMachineEndianness = LITTLE\<rparr> [0, 3] [5, 1]
     \<lparr>buf_bytes = [10, 11, 12, 13, 14, 15], isChained = False, isManagedOne = True\<rparr>
     (0 :: nat) 1 NATIVE SHARE_NONE = Inl Undefined"
proof -
  have vo: "view_offsets (view_dims [0, 3] [5, 1]) 0 = []"
    by (simp add: view_offsets_def view_dims_def)
  have "serialize \<lparr>dchecks = True, gMachineEndianness = LITTLE\<rparr> [0, 3] [5, 1]
     \<lparr>buf_bytes = [10, 11, 12, 13, 14, 15], isChained = False, isManagedOne = True\<rparr>
     (0 :: nat) 1 NATIVE SHARE_NONE = Inl CheckFailed"
    by code_simp
  moreover have "serialize \<lparr>dchecks = False, gMachineEndianness = LITTLE\<rparr> [0, 3] [5, 1]
     \<lparr>buf_bytes = [10, 11, 12, 13, 14, 15], isChained = False, isManagedOne = True\<rparr>
     (0 :: nat) 1 NATIVE SHARE_NONE = Inl Undefined"
    by code_simp
  ultimately show ?thesis
    by (simp add: valid_view_def in_bounds_def vo flatten_def native_order_def)
qed

theorem serialize_roundtrip_witness:
  "valid_view [2, 3] [1, 2]
     \<lparr>buf_bytes = [10, 11, 12, 13, 14, 15], isChained = False, isManagedOne = True\<rparr> 1 \<and>
   native_order \<lparr>dchecks = True, gMachineEndianness = LITTLE\<rparr> NATIVE \<and>
   0 \<notin> set [2, 3 :: u64] \<and>
   unat (2 :: u64) * unat (1 :: u64) < 2 ^ 64 \<and>
   unat (2 :: u64) * unat (1 :: u64) \<le> length [8, 9, 10, 11, 12, 13, 14, 15 :: byte] \<and>
   length [8, 9, 10, 11, 12, 13, 14, 15 :: byte] < 2 ^ 64 \<and>
   (\<exists>out data1.
      serialize \<lparr>dchecks = True, gMachineEndianness = LITTLE\<rparr> [2, 3] [1, 2]
        \<lparr>buf_bytes = [10, 11, 12, 13, 14, 15], isChained = False, isManagedOne = True\<rparr>
        (0 :: nat) 1 NATIVE SHARE_ALL = Inr (out, data1) \<and>
      payload out = [10, 12, 14, 11, 13, 15] \<and>
      deserialize out 0 = Inr [10, 12, 14, 11, 13, 15]) \<and>
   (\<exists>out.
      Tensor_serialize \<lparr>dchecks = True, gMachineEndianness = LITTLE\<rparr>
        \<lparr>t_storage = \<lparr>buf_bytes = [8, 9, 10, 11, 12, 13, 14, 15], isChained = False,
                       isManagedOne = True\<rparr>,
         t_storageOffset = 2, t_sizes = [2, 3], t_strides = [1, 2]\<rparr>
        (0 :: nat) 1 NATIVE SHARE_ALL = Inr out \<and>
      payload out = [10, 12, 14, 11, 13, 15])"
proof -
  let ?B = "\<lparr>dchecks = True, gMachineEndianness = LITTLE\<rparr>"
  let ?data = "\<lparr>buf_bytes = [10, 11, 12, 13, 14, 15], isChained = False, isManagedOne = True\<rparr>"
  let ?T = "\<lparr>t_storage = \<lparr>buf_bytes = [8, 9, 10, 11, 12, 13, 14, 15], isChained = False,
                            isManagedOne = True\<rparr>,
              t_storageOffset = 2, t_sizes = [2, 3], t_strides = [1, 2]\<rparr>"
  have vo: "view_offsets (view_dims [2, 3] [1, 2]) 0 = [0, 2, 4, 1, 3, 5]"
    "view_offsets (view_dims [2, 3] [1, 2]) 2 = [2, 4, 6, 3, 5, 7]"
    by (simp_all add: view_offsets_def view_dims_def upt_conv_Cons)
  have h: "valid_view [2, 3] [1, 2] ?data 1" "native_order ?B NATIVE"
    "0 \<notin> set [2, 3 :: u64]"
    by (simp_all add: valid_view_def in_bounds_def vo native_order_def)
  have fl: "flatten [10, 11, 12, 13, 14, 15] (unat (1 :: u64)) (view_dims [2, 3] [1, 2]) 0
            = [10, 12, 14, 11, 13, 15]"
    "flatten [8, 9, 10, 11, 12, 13, 14, 15] (unat (1 :: u64)) (view_dims [2, 3] [1, 2]) 2
            = [10, 12, 14, 11, 13, 15]"
    by (simp_all add: flatten_def vo element_def)
  show ?thesis
    using h fl
      serialize_roundtrip [of "[2, 3]" "[1, 2]" ?data 1 ?B NATIVE "0 :: nat" SHARE_ALL ?T]
    by simp
qed

text \<open>
  Claim C2, amended. Two views of the same shape without a dimension of size zero (or both
  one contiguous run), consistent with their buffers and of identical logical content,
  give byte-identical payloads whatever their strides; and for a view without a dimension
  of size zero whose strides are the row-major ones, the whole-tensor path of serialize and
  the general path, forced to start at any dimension, give the same bytes.
\<close>

theorem canonical_payload:
  "(valid_view sizes strides1 data1 elementSize \<and> valid_view sizes strides2 data2 elementSize \<and>
    native_order B endianness \<and>
    (0 \<notin> set sizes \<or> whole_run sizes strides1 \<and> whole_run sizes strides2) \<and>
    flatten (buf_bytes data1) (unat elementSize) (view_dims sizes strides1) 0
      = flatten (buf_bytes data2) (unat elementSize) (view_dims sizes strides2) 0 \<longrightarrow>
      (\<exists>out1 rest1 out2 rest2.
         serialize B sizes strides1 data1 dtype elementSize endianness sharing1 = Inr (out1, rest1) \<and>
         serialize B sizes strides2 data2 dtype elementSize endianness sharing2 = Inr (out2, rest2) \<and>
         payload out1 = payload out2)) \<and>
   (valid_view sizes strides data elementSize \<and> native_order B endianness \<and>
    strides \<noteq> [] \<and> trailing_contiguous sizes strides 0 \<and> 0 \<notin> set sizes \<and>
    0 < k \<and> k \<le> length sizes \<longrightarrow>
      (\<exists>out outQueue.
         serialize B sizes strides data dtype elementSize endianness sharing
           = Inr (out, IOBuf_empty) \<and>
         serialize_general (dchecks B) sizes strides data elementSize sharing (int k)
           (prod_list (drop k sizes) * elementSize) = Inr outQueue \<and>
         concat (map chunk_bytes outQueue) = payload out))"
proof (intro conjI impI)
  assume a: "valid_view sizes strides1 data1 elementSize \<and> valid_view sizes strides2 data2 elementSize \<and>
    native_order B endianness \<and>
    (0 \<notin> set sizes \<or> whole_run sizes strides1 \<and> whole_run sizes strides2) \<and>
    flatten (buf_bytes data1) (unat elementSize) (view_dims sizes strides1) 0
      = flatten (buf_bytes data2) (unat elementSize) (view_dims sizes strides2) 0"
  then obtain out1 rest1 where 1:
    "serialize B sizes strides1 data1 dtype elementSize endianness sharing1 = Inr (out1, rest1)"
    "payload out1 = flatten (buf_bytes data1) (unat elementSize) (view_dims sizes strides1) 0"
    using serialize_payload [of sizes strides1 data1 elementSize B endianness dtype sharing1]
    by blast
  from a obtain out2 rest2 where 2:
    "serialize B sizes strides2 data2 dtype elementSize endianness sharing2 = Inr (out2, rest2)"
    "payload out2 = flatten (buf_bytes data2) (unat elementSize) (view_dims sizes strides2) 0"
    using serialize_payload [of sizes strides2 data2 elementSize B endianness dtype sharing2]
    by blast
  from a 1 2 show "\<exists>out1 rest1 out2 rest2.
         serialize B sizes strides1 data1 dtype elementSize endianness sharing1 = Inr (out1, rest1) \<and>
         serialize B sizes strides2 data2 dtype elementSize endianness sharing2 = Inr (out2, rest2) \<and>
         payload out1 = payload out2"
    by auto
next
  assume a: "valid_view sizes strides data elementSize \<and> native_order B endianness \<and>
    strides \<noteq> [] \<and> trailing_contiguous sizes strides 0 \<and> 0 \<notin> set sizes \<and>
    0 < k \<and> k \<le> length sizes"
  then have len: "length strides = length sizes" by (auto simp: valid_view_def)
  from a obtain out rest where 1:
    "serialize B sizes strides data dtype elementSize endianness sharing = Inr (out, rest)"
    "payload out = flatten (buf_bytes data) (unat elementSize) (view_dims sizes strides) 0"
    using serialize_payload [of sizes strides data elementSize B endianness dtype sharing]
    by blast
  have "analyze (dchecks B) sizes strides = Inr (0, prod_list sizes, prod_list sizes)"
    using a len by (intro analyze_whole_run) auto
  from serialize_source_after [OF 1(1) this] have rest: "rest = IOBuf_empty" by simp
  from a obtain outQueue where 2:
    "serialize_general (dchecks B) sizes strides data elementSize sharing (int k)
       (prod_list (drop k sizes) * elementSize) = Inr outQueue"
    "concat (map chunk_bytes outQueue)
       = flatten (buf_bytes data) (unat elementSize) (view_dims sizes strides) 0"
    using serialize_general_forced [of sizes strides data elementSize k "dchecks B" sharing]
    by blast
  from 1 2 rest show "\<exists>out outQueue.
         serialize B sizes strides data dtype elementSize endianness sharing
           = Inr (out, IOBuf_empty) \<and>
         serialize_general (dchecks B) sizes strides data elementSize sharing (int k)
           (prod_list (drop k sizes) * elementSize) = Inr outQueue \<and>
         concat (map chunk_bytes outQueue) = payload out"
    by auto
qed

text \<open>
  The claim as stated fails on views with a dimension of size zero: two views of the same,
  empty, content differ (one serializes to the empty payload, the other aborts), and the
  general path forced on a row-major view of this shape does not give the bytes of the
  whole-tensor path.
\<close>

theorem canonical_payload_counterexample:
  "valid_view [0, 2] [2, 1]
     \<lparr>buf_bytes = [10, 11, 12, 13, 14, 15], isChained = False, isManagedOne = True\<rparr> 1 \<and>
   valid_view [0, 2] [7, 1]
     \<lparr>buf_bytes = [10, 11, 12, 13, 14, 15], isChained = False, isManagedOne = True\<rparr> 1 \<and>
   flatten [10, 11, 12, 13, 14, 15] (unat (1 :: u64)) (view_dims [0, 2] [2, 1]) 0
     = flatten [10, 11, 12, 13, 14, 15] (unat (1 :: u64)) (view_dims [0, 2] [7, 1]) 0 \<and>
   serialize \<lparr>dchecks = True, gMachineEndianness = LITTLE\<rparr> [0, 2] [2, 1]
     \<lparr>buf_bytes = [10, 11, 12, 13, 14, 15], isChained = False, isManagedOne = True\<rparr>
     (0 :: nat) 1 NATIVE SHARE_NONE
     = Inr (\<lparr>out_dataType = 0, out_endianness = LITTLE, out_sizes = [0, 2],
             out_data = [\<lparr>chunk_origin = Copied, chunk_bytes = []\<rparr>]\<rparr>, IOBuf_empty) \<and>
   serialize \<lparr>dchecks = True, gMachineEndianness = LITTLE\<rparr> [0, 2] [7, 1]
     \<lparr>buf_bytes = [10, 11, 12, 13, 14, 15], isChained = False, isManagedOne = True\<rparr>
     (0 :: nat) 1 NATIVE SHARE_NONE = Inl CheckFailed \<and>
   serialize_general True [0, 2] [2, 1]
     \<lparr>buf_bytes = [10, 11, 12, 13, 14, 15], isChained = False, isManagedOne = True\<rparr>
     1 SHARE_NONE 1 2 = Inl Undefined"
proof -
  have vo: "view_offsets (view_dims [0, 2] [2, 1]) 0 = []"
    "view_offsets (view_dims [0, 2] [7, 1]) 0 = []"
    by (simp_all add: view_offsets_def view_dims_def)
  have "serialize \<lparr>dchecks = True, gMachineEndianness = LITTLE\<rparr> [0, 2] [2, 1]
     \<lparr>buf_bytes = [10, 11, 12, 13, 14, 15], isChained = False, isManagedOne = True\<rparr>
     (0 :: nat) 1 NATIVE SHARE_NONE
     = Inr (\<lparr>out_dataType = 0, out_endianness = LITTLE, out_sizes = [0, 2],
             out_data = [\<lparr>chunk_origin = Copied, chunk_bytes = []\<rparr>]\<rparr>, IOBuf_empty)"
    by code_simp
  moreover have "serialize \<lparr>dchecks = True, gMachineEndianness = LITTLE\<rparr> [0, 2] [7, 1]
     \<lparr>buf_bytes = [10, 11, 12, 13, 14, 15], isChained = False, isManagedOne = True\<rparr>
     (0 :: nat) 1 NATIVE SHARE_NONE = Inl CheckFailed"
    by code_simp
  moreover have "serialize_general True [0, 2] [2, 1]
     \<lparr>buf_bytes = [10, 11, 12, 13, 14, 15], isChained = False, isManagedOne = True\<rparr>
     1 SHARE_NONE 1 2 = Inl Undefined"
    by code_simp
  ultimately show ?thesis
    by (simp add: valid_view_def in_bounds_def vo flatten_def)
qed

theorem canonical_payload_witness:
  "valid_view [2, 3] [1, 2]
     \<lparr>buf_bytes = [10, 11, 12, 13, 14, 15], isChained = False, isManagedOne = True\<rparr> 1 \<and>
   valid_view [2, 3] [3, 1]
     \<lparr>buf_bytes = [10, 12, 14, 11, 13, 15], isChained = False, isManagedOne = False\<rparr> 1 \<and>
   native_order \<lparr>dchecks = True, gMachineEndianness = LITTLE\<rparr> NATIVE \<and>
   0 \<notin> set [2, 3 :: u64] \<and>
   flatten [10, 11, 12, 13, 14, 15] (unat (1 :: u64)) (view_dims [2, 3] [1, 2]) 0
     = flatten [10, 12, 14, 11, 13, 15] (unat (1 :: u64)) (view_dims [2, 3] [3, 1]) 0 \<and>
   [3, 1] \<noteq> ([] :: u64 list) \<and> trailing_contiguous [2, 3] [3, 1] 0 \<and>
   (0 :: nat) < 1 \<and> 1 \<le> length [2, 3 :: u64] \<and>
   (\<exists>out1 rest1 out2 rest2.
      serialize \<lparr>dchecks = True, gMachineEndianness = LITTLE\<rparr> [2, 3] [1, 2]
        \<lparr>buf_bytes = [10, 11, 12, 13, 14, 15], isChained = False, isManagedOne = True\<rparr>
        (0 :: nat) 1 NATIVE SHARE_ALL = Inr (out1, rest1) \<and>
      serialize \<lparr>dchecks = True, gMachineEndianness = LITTLE\<rparr> [2, 3] [3, 1]
        \<lparr>buf_bytes = [10, 12, 14, 11, 13, 15], isChained = False, isManagedOne = False\<rparr>
        (0 :: nat) 1 NATIVE SHARE_NONE = Inr (out2, rest2) \<and>
      payload out1 = payload out2) \<and>
   (\<exists>out outQueue.
      serialize \<lparr>dchecks = True, gMachineEndianness = LITTLE\<rparr> [2, 3] [3, 1]
        \<lparr>buf_bytes = [10, 12, 14, 11, 13, 15], isChained = False, isManagedOne = False\<rparr>
        (0 :: nat) 1 NATIVE SHARE_NONE = Inr (out, IOBuf_empty) \<and>
      serialize_general True [2, 3] [3, 1]
        \<lparr>buf_bytes = [10, 12, 14, 11, 13, 15], isChained = False, isManagedOne = False\<rparr>
        1 SHARE_NONE (int 1) (prod_list (drop 1 [2, 3]) * 1) = Inr outQueue \<and>
      concat (map chunk_bytes outQueue) = payload out)"
proof -
  let ?B = "\<lparr>dchecks = True, gMachineEndianness = LITTLE\<rparr>"
  let ?data1 = "\<lparr>buf_bytes = [10, 11, 12, 13, 14, 15], isChained = False, isManagedOne = True\<rparr>"
  let ?data2 = "\<lparr>buf_bytes = [10, 12, 14, 11, 13, 15], isChained = False, isManagedOne = False\<rparr>"
  have vo: "view_offsets (view_dims [2, 3] [1, 2]) 0 = [0, 2, 4, 1, 3, 5]"
    "view_offsets (view_dims [2, 3] [3, 1]) 0 = [0, 1, 2, 3, 4, 5]"
    by (simp_all add: view_offsets_def view_dims_def upt_conv_Cons)
  have h: "valid_view [2, 3] [1, 2] ?data1 1" "valid_view [2, 3] [3, 1] ?data2 1"
    "native_order ?B NATIVE" "0 \<notin> set [2, 3 :: u64]"
    "flatten [10, 11, 12, 13, 14, 15] (unat (1 :: u64)) (view_dims [2, 3] [1, 2]) 0
     = flatten [10, 12, 14, 11, 13, 15] (unat (1 :: u64)) (view_dims [2, 3] [3, 1]) 0"
    "[3, 1] \<noteq> ([] :: u64 list)"
    by (simp_all add: valid_view_def in_bounds_def vo native_order_def flatten_def element_def)
  have tc: "trailing_contiguous [2, 3] [3, 1] 0"
    by (auto simp: trailing_contiguous_def less_Suc_eq)
  show ?thesis
    using h tc
      canonical_payload [where sizes = "[2, 3]" and ?strides1.0 = "[1, 2]" and ?data1.0 = ?data1
        and elementSize = 1 and ?strides2.0 = "[3, 1]" and ?data2.0 = ?data2 and B = ?B
        and endianness = NATIVE and dtype = "0 :: nat" and ?sharing1.0 = SHARE_ALL
        and ?sharing2.0 = SHARE_NONE and strides = "[3, 1]" and data = ?data2 and k = 1
        and sharing = SHARE_NONE]
    by simp
qed

lemma partialCloneOne_Inr:
  assumes L: "length (buf_bytes buf) < 2 ^ 64"
    and ok: "partialCloneOne dbg buf offset len = Inr b"
  shows "unat offset + unat len \<le> length (buf_bytes buf)"
proof (rule ccontr)
  assume "\<not> unat offset + unat len \<le> length (buf_bytes buf)"
  then have out: "length (buf_bytes buf) < unat offset + unat len" by simp
  show False
  proof (cases "offset \<le> buf_length buf")
    case False
    with ok show False
      by (auto simp: partialCloneOne_def trimStart_def split: if_splits)
  next
    case True
    then have o: "unat offset \<le> length (buf_bytes buf)"
      using L by (simp add: word_le_nat_alt unat_buf_length)
    let ?cloned = "buf\<lparr>buf_bytes := drop (unat offset) (buf_bytes buf)\<rparr>"
    have ts: "trimStart dbg buf offset = Inr ?cloned"
      using True by (simp add: trimStart_def)
    have "length (buf_bytes ?cloned) < 2 ^ 64" using L by simp
    then have "unat (buf_length ?cloned) = length (buf_bytes buf) - unat offset"
      by (simp add: unat_buf_length)
    with out o have "\<not> len \<le> buf_length ?cloned"
      by (simp add: word_le_nat_alt)
    then have "\<not> buf_length ?cloned - len \<le> buf_length ?cloned"
      by (simp add: word_sub_le_iff)
    then have "\<exists>e. trimEnd dbg ?cloned (buf_length ?cloned - len) = Inl e"
      by (simp add: trimEnd_def)
    with ts ok show False
      by (auto simp: partialCloneOne_def split: if_splits)
  qed
qed

lemma emit_Inr_bounds:
  assumes "length (buf_bytes data) < 2 ^ 64" "emit dbg data ms src len = Inr c"
  shows "unat src + unat len \<le> length (buf_bytes data)"
proof (cases "ms \<and> kMinCloneSize \<le> len")
  case True
  with assms(2) obtain b where "partialCloneOne dbg data src len = Inr b"
    by (auto simp: emit_def split: sum.splits)
  with assms(1) show ?thesis by (rule partialCloneOne_Inr)
next
  case False
  with assms(2) show ?thesis
    by (auto simp: emit_def raw_read_def split: if_splits sum.splits)
qed

lemma emit_agree:
  assumes "length (buf_bytes data) < 2 ^ 64" "emit dbg data ms1 src len = Inr c1"
  shows "\<exists>c2. emit dbg data ms2 src len = Inr c2 \<and> chunk_bytes c2 = chunk_bytes c1"
proof -
  from emit_Inr_bounds [OF assms] have b: "unat src + unat len \<le> length (buf_bytes data)" .
  from emit_ok [OF b assms(1), of dbg ms1] assms(2)
  have "chunk_bytes c1 = take (unat len) (drop (unat src) (buf_bytes data))" by auto
  with emit_ok [OF b assms(1), of dbg ms2] show ?thesis by simp
qed

lemma odometer_agree:
  "odometer E idx counter src out1 = Inr q1 \<Longrightarrow>
   length (buf_bytes (env_data E)) < 2 ^ 64 \<Longrightarrow>
   map chunk_bytes out2 = map chunk_bytes out1 \<Longrightarrow>
   \<exists>q2. odometer (E\<lparr>env_mayShare := ms\<rparr>) idx counter src out2 = Inr q2 \<and>
        map chunk_bytes q2 = map chunk_bytes q1"
proof (induction E idx counter src out1 arbitrary: out2 rule: odometer.induct)
  case (1 E idx counter src out1)
  let ?E = "E\<lparr>env_mayShare := ms\<rparr>"
  show ?case
  proof (cases "idx \<ge> 0")
    case False
    with "1.prems" show ?thesis by (simp add: odometer_done)
  next
    case True
    show ?thesis
    proof (cases "idx = env_firstContiguousDim E")
      case emit: True
      from "1.prems"(1) True emit obtain c where
        c: "emit (env_dbg E) (env_data E) (env_mayShare E) src (env_contiguousSize E) = Inr c"
        and rec: "odometer E (idx - 1) counter src (out1 @ [c]) = Inr q1"
        by (subst (asm) odometer.simps) (auto split: sum.splits)
      from emit_agree [OF "1.prems"(2) c, of ms] obtain c2 where
        c2: "emit (env_dbg E) (env_data E) ms src (env_contiguousSize E) = Inr c2"
            "chunk_bytes c2 = chunk_bytes c" by blast
      have "map chunk_bytes (out2 @ [c2]) = map chunk_bytes (out1 @ [c])"
        using "1.prems"(3) c2(2) by simp
      from "1.IH"(1) [OF True emit c rec "1.prems"(2) this] obtain q2 where
        q2: "odometer ?E (idx - 1) counter src (out2 @ [c2]) = Inr q2"
            "map chunk_bytes q2 = map chunk_bytes q1" by blast
      have "odometer ?E idx counter src out2 = odometer ?E (idx - 1) counter src (out2 @ [c2])"
        using True emit c2(1) by (subst odometer.simps) simp
      with q2 show ?thesis by simp
    next
      case step: False
      from "1.prems"(1) True step obtain st c sz where
        ats: "at (env_strides E) idx = Inr st" "at counter idx = Inr c"
             "at (env_sizes E) idx = Inr sz"
        by (subst (asm) odometer.simps) (auto split: sum.splits)
      show ?thesis
      proof (cases "c + 1 = sz")
        case reset: True
        have "odometer E (idx - 1) (counter[nat idx := 0])
                (src + st * env_elementSize E - sz * st * env_elementSize E) out1 = Inr q1"
          using "1.prems"(1) True step ats reset
          by (subst (asm) odometer.simps) (simp add: Let_def)
        from "1.IH"(2) [OF True step ats refl reset this "1.prems"(2,3)] obtain q2 where
          q2: "odometer ?E (idx - 1) (counter[nat idx := 0])
                (src + st * env_elementSize E - sz * st * env_elementSize E) out2 = Inr q2"
              "map chunk_bytes q2 = map chunk_bytes q1" by blast
        have "odometer ?E idx counter src out2
              = odometer ?E (idx - 1) (counter[nat idx := 0])
                  (src + st * env_elementSize E - sz * st * env_elementSize E) out2"
          using True step ats reset by (subst odometer.simps) (simp add: Let_def)
        with q2 show ?thesis by simp
      next
        case inc: False
        have "odometer E (env_firstContiguousDim E) (counter[nat idx := c + 1])
                (src + st * env_elementSize E) out1 = Inr q1"
          using "1.prems"(1) True step ats inc
          by (subst (asm) odometer.simps) (simp add: Let_def)
        from "1.IH"(3) [OF True step ats refl inc this "1.prems"(2,3)] obtain q2 where
          q2: "odometer ?E (env_firstContiguousDim E) (counter[nat idx := c + 1])
                (src + st * env_elementSize E) out2 = Inr q2"
              "map chunk_bytes q2 = map chunk_bytes q1" by blast
        have "odometer ?E idx counter src out2
              = odometer ?E (env_firstContiguousDim E) (counter[nat idx := c + 1])
                  (src + st * env_elementSize E) out2"
          using True step ats inc by (subst odometer.simps) (simp add: Let_def)
        with q2 show ?thesis by simp
      qed
    qed
  qed
qed

lemma serialize_general_agree:
  assumes "serialize_general dbg sizes strides data es sharing1 fcd cs = Inr q1"
    and "length (buf_bytes data) < 2 ^ 64"
  shows "\<exists>q2. serialize_general dbg sizes strides data es sharing2 fcd cs = Inr q2 \<and>
              concat (map chunk_bytes q2) = concat (map chunk_bytes q1)"
proof -
  from odometer_agree [OF assms(1) [unfolded serialize_general_def], of "[]" "mayShare sharing2 data"]
    assms(2)
  obtain q2 where "serialize_general dbg sizes strides data es sharing2 fcd cs = Inr q2"
    "map chunk_bytes q2 = map chunk_bytes q1"
    by (auto simp: serialize_general_def)
  then show ?thesis by auto
qed

lemma serialize_agree:
  assumes S: "serialize B sizes strides data dtype es endianness sharing1 = Inr (out1, data1)"
    and L: "length (buf_bytes data) < 2 ^ 64"
  shows "\<exists>out2. serialize B sizes strides data dtype es endianness sharing2 = Inr (out2, data1) \<and>
           payload out2 = payload out1 \<and> out_sizes out2 = out_sizes out1 \<and>
           out_dataType out2 = out_dataType out1 \<and> out_endianness out2 = out_endianness out1"
proof -
  from S obtain fcd ce de where an: "analyze (dchecks B) sizes strides = Inr (fcd, ce, de)"
    by (auto simp: serialize_def Let_def split: if_splits sum.splits)
  have pass: "\<not> (dchecks B \<and> isChained data)"
    "\<not> (endianness \<noteq> NATIVE \<and> endianness \<noteq> gMachineEndianness B)"
    "\<not> (dchecks B \<and> \<not> ce * es \<le> de * es)"
    using S an by (auto simp: serialize_def Let_def split: if_splits)
  show ?thesis
  proof (cases "sizes = []")
    case True
    with S an pass show ?thesis by (auto simp: serialize_def Let_def payload_def)
  next
    case ne: False
    show ?thesis
    proof (cases "fcd = 0")
      case True
      with S an pass ne show ?thesis
        by (auto simp: serialize_def Let_def payload_def applySharingMode_def
              split: if_splits sum.splits)
    next
      case False
      from S an pass ne False obtain q1 where
        q1: "serialize_general (dchecks B) sizes strides data es sharing1 fcd (ce * es) = Inr q1"
        and o1: "out1 = \<lparr>out_dataType = dtype,
                   out_endianness = (if endianness = NATIVE then gMachineEndianness B else endianness),
                   out_sizes = sizes, out_data = q1\<rparr>" "data1 = data"
        and some: "concat (map chunk_bytes q1) \<noteq> []"
        by (auto simp: serialize_def Let_def split: sum.splits if_splits
              simp del: concat_eq_Nil_conv)
      from serialize_general_agree [OF q1 L, of sharing2] obtain q2 where
        q2: "serialize_general (dchecks B) sizes strides data es sharing2 fcd (ce * es) = Inr q2"
            "concat (map chunk_bytes q2) = concat (map chunk_bytes q1)" by blast
      with an pass ne False o1 some show ?thesis
        by (auto simp: serialize_def Let_def payload_def simp del: concat_eq_Nil_conv)
    qed
  qed
qed

text \<open>
  Claim C9. For a view consistent with its buffer (as in claim C1), the three sharing modes
  all return, with the same payload bytes, sizes, data type and byte order, and leave the
  source buffer in the same state: the mode decides about copying and aliasing only. And
  whenever the call returns under one mode, on any input, it returns under every other
  mode with the same payload bytes, sizes, data type, byte order and source buffer.
\<close>

theorem sharing_transparency:
  "(valid_view sizes strides data elementSize \<and> native_order B endianness \<and>
    (0 \<notin> set sizes \<or> whole_run sizes strides) \<longrightarrow>
     (\<exists>out1 out2 out3 rest.
        serialize B sizes strides data dtype elementSize endianness SHARE_NONE = Inr (out1, rest) \<and>
        serialize B sizes strides data dtype elementSize endianness SHARE_IOBUF_MANAGED
          = Inr (out2, rest) \<and>
        serialize B sizes strides data dtype elementSize endianness SHARE_ALL = Inr (out3, rest) \<and>
        payload out1 = payload out2 \<and> payload out2 = payload out3 \<and>
        out_sizes out1 = out_sizes out2 \<and> out_sizes out2 = out_sizes out3 \<and>
        out_dataType out1 = out_dataType out2 \<and> out_dataType out2 = out_dataType out3 \<and>
        out_endianness out1 = out_endianness out2 \<and>
        out_endianness out2 = out_endianness out3)) \<and>
   (length (buf_bytes data) < 2 ^ 64 \<and>
    serialize B sizes strides data dtype elementSize endianness sharing = Inr (out, data1) \<longrightarrow>
     (\<exists>out'. serialize B sizes strides data dtype elementSize endianness sharing'
               = Inr (out', data1) \<and>
            payload out' = payload out \<and> out_sizes out' = out_sizes out \<and>
            out_dataType out' = out_dataType out \<and> out_endianness out' = out_endianness out))"
proof (intro conjI impI)
  assume a: "valid_view sizes strides data elementSize \<and> native_order B endianness \<and>
   (0 \<notin> set sizes \<or> whole_run sizes strides)"
  then have L: "length (buf_bytes data) < 2 ^ 64" by (simp add: valid_view_def)
  from a obtain out1 rest where 1:
    "serialize B sizes strides data dtype elementSize endianness SHARE_NONE = Inr (out1, rest)"
    using serialize_payload [of sizes strides data elementSize B endianness dtype SHARE_NONE]
    by blast
  from serialize_agree [OF 1 L, of SHARE_IOBUF_MANAGED] obtain out2 where 2:
    "serialize B sizes strides data dtype elementSize endianness SHARE_IOBUF_MANAGED
       = Inr (out2, rest)"
    "payload out2 = payload out1" "out_sizes out2 = out_sizes out1"
    "out_dataType out2 = out_dataType out1" "out_endianness out2 = out_endianness out1"
    by blast
  from serialize_agree [OF 1 L, of SHARE_ALL] obtain out3 where 3:
    "serialize B sizes strides data dtype elementSize endianness SHARE_ALL = Inr (out3, rest)"
    "payload out3 = payload out1" "out_sizes out3 = out_sizes out1"
    "out_dataType out3 = out_dataType out1" "out_endianness out3 = out_endianness out1"
    by blast
  from 1 2 3 show "\<exists>out1 out2 out3 rest.
        serialize B sizes strides data dtype elementSize endianness SHARE_NONE = Inr (out1, rest) \<and>
        serialize B sizes strides data dtype elementSize endianness SHARE_IOBUF_MANAGED
          = Inr (out2, rest) \<and>
        serialize B sizes strides data dtype elementSize endianness SHARE_ALL = Inr (out3, rest) \<and>
        payload out1 = payload out2 \<and> payload out2 = payload out3 \<and>
        out_sizes out1 = out_sizes out2 \<and> out_sizes out2 = out_sizes out3 \<and>
        out_dataType out1 = out_dataType out2 \<and> out_dataType out2 = out_dataType out3 \<and>
        out_endianness out1 = out_endianness out2 \<and> out_endianness out2 = out_endianness out3"
    by auto
next
  assume "length (buf_bytes data) < 2 ^ 64 \<and>
    serialize B sizes strides data dtype elementSize endianness sharing = Inr (out, data1)"
  then show "\<exists>out'. serialize B sizes strides data dtype elementSize endianness sharing'
               = Inr (out', data1) \<and>
            payload out' = payload out \<and> out_sizes out' = out_sizes out \<and>
            out_dataType out' = out_dataType out \<and> out_endianness out' = out_endianness out"
    using serialize_agree [of B sizes strides data dtype elementSize endianness sharing out data1
        sharing']
    by blast
qed

theorem sharing_transparency_witness:
  "valid_view [2, 3] [1, 2]
     \<lparr>buf_bytes = [10, 11, 12, 13, 14, 15], isChained = False, isManagedOne = True\<rparr> 1 \<and>
   native_order \<lparr>dchecks = True, gMachineEndianness = LITTLE\<rparr> NATIVE \<and>
   0 \<notin> set [2, 3 :: u64] \<and>
   length [10, 11, 12, 13, 14, 15 :: byte] < 2 ^ 64 \<and>
   serialize \<lparr>dchecks = True, gMachineEndianness = LITTLE\<rparr> [2, 3] [3, 1]
     \<lparr>buf_bytes = [10, 11, 12, 13, 14, 15], isChained = False, isManagedOne = True\<rparr>
     (0 :: nat) 1 NATIVE SHARE_ALL
   = Inr (\<lparr>out_dataType = 0, out_endianness = LITTLE, out_sizes = [2, 3],
            out_data = [\<lparr>chunk_origin = Aliased, chunk_bytes = [10, 11, 12, 13, 14, 15]\<rparr>]\<rparr>,
          IOBuf_empty) \<and>
   (\<exists>out1 out2 out3 rest.
      serialize \<lparr>dchecks = True, gMachineEndianness = LITTLE\<rparr> [2, 3] [1, 2]
        \<lparr>buf_bytes = [10, 11, 12, 13, 14, 15], isChained = False, isManagedOne = True\<rparr>
        (0 :: nat) 1 NATIVE SHARE_NONE = Inr (out1, rest) \<and>
      serialize \<lparr>dchecks = True, gMachineEndianness = LITTLE\<rparr> [2, 3] [1, 2]
        \<lparr>buf_bytes = [10, 11, 12, 13, 14, 15], isChained = False, isManagedOne = True\<rparr>
        (0 :: nat) 1 NATIVE SHARE_IOBUF_MANAGED = Inr (out2, rest) \<and>
      serialize \<lparr>dchecks = True, gMachineEndianness = LITTLE\<rparr> [2, 3] [1, 2]
        \<lparr>buf_bytes = [10, 11, 12, 13, 14, 15], isChained = False, isManagedOne = True\<rparr>
        (0 :: nat) 1 NATIVE SHARE_ALL = Inr (out3, rest) \<and>
      payload out1 = payload out2 \<and> payload out2 = payload out3) \<and>
   (\<exists>out'.
      serialize \<lparr>dchecks = True, gMachineEndianness = LITTLE\<rparr> [2, 3] [3, 1]
        \<lparr>buf_bytes = [10, 11, 12, 13, 14, 15], isChained = False, isManagedOne = True\<rparr>
        (0 :: nat) 1 NATIVE SHARE_NONE = Inr (out', IOBuf_empty) \<and>
      payload out' = [10, 11, 12, 13, 14, 15])"
proof -
  let ?B = "\<lparr>dchecks = True, gMachineEndianness = LITTLE\<rparr>"
  let ?data = "\<lparr>buf_bytes = [10, 11, 12, 13, 14, 15], isChained = False, isManagedOne = True\<rparr>"
  let ?out = "\<lparr>out_dataType = 0 :: nat, out_endianness = LITTLE, out_sizes = [2, 3],
            out_data = [\<lparr>chunk_origin = Aliased, chunk_bytes = [10, 11, 12, 13, 14, 15]\<rparr>]\<rparr>"
  have vo: "view_offsets (view_dims [2, 3] [1, 2]) 0 = [0, 2, 4, 1, 3, 5]"
    by (simp add: view_offsets_def view_dims_def upt_conv_Cons)
  have h: "valid_view [2, 3] [1, 2] ?data 1" "native_order ?B NATIVE" "0 \<notin> set [2, 3 :: u64]"
    "length [10, 11, 12, 13, 14, 15 :: byte] < 2 ^ 64"
    by (simp_all add: valid_view_def in_bounds_def vo native_order_def)
  have s: "serialize ?B [2, 3] [3, 1] ?data (0 :: nat) 1 NATIVE SHARE_ALL = Inr (?out, IOBuf_empty)"
    by code_simp
  note c = sharing_transparency [of "[2, 3]" "[1, 2]" ?data 1 ?B NATIVE "0 :: nat"]
  have 1: "\<exists>out1 out2 out3 rest.
        serialize ?B [2, 3] [1, 2] ?data (0 :: nat) 1 NATIVE SHARE_NONE = Inr (out1, rest) \<and>
        serialize ?B [2, 3] [1, 2] ?data (0 :: nat) 1 NATIVE SHARE_IOBUF_MANAGED
          = Inr (out2, rest) \<and>
        serialize ?B [2, 3] [1, 2] ?data (0 :: nat) 1 NATIVE SHARE_ALL = Inr (out3, rest) \<and>
        payload out1 = payload out2 \<and> payload out2 = payload out3"
    using h c [THEN conjunct1] by blast
  have "\<exists>out'. serialize ?B [2, 3] [3, 1] ?data (0 :: nat) 1 NATIVE SHARE_NONE
                 = Inr (out', IOBuf_empty) \<and>
               payload out' = payload ?out"
    using sharing_transparency [THEN conjunct2, of ?data ?B "[2, 3]" "[3, 1]" "0 :: nat" 1 NATIVE
        SHARE_ALL ?out IOBuf_empty SHARE_NONE] s
    by auto
  then have 2: "\<exists>out'. serialize ?B [2, 3] [3, 1] ?data (0 :: nat) 1 NATIVE SHARE_NONE
                 = Inr (out', IOBuf_empty) \<and>
               payload out' = [10, 11, 12, 13, 14, 15]"
    by (simp add: payload_def)
  show ?thesis
    apply (intro conjI)
         apply (rule h(1))
        apply (rule h(2))
       apply (rule h(3))
      apply (rule h(4))
     apply (rule s)
     apply (rule 1)
    apply (rule 2)
    done
qed

section \<open>Copying and aliasing\<close>

lemma emit_origin:
  "emit dbg data ms src len = Inr c \<Longrightarrow>
   chunk_origin c = (if ms \<and> kMinCloneSize \<le> len then Aliased else Copied)"
  by (auto simp: emit_def split: if_splits sum.splits)

lemma odometer_origins:
  "odometer E idx counter src outQueue = Inr q \<Longrightarrow>
   \<forall>c \<in> set outQueue. chunk_origin c
      = (if env_mayShare E \<and> kMinCloneSize \<le> env_contiguousSize E then Aliased else Copied) \<Longrightarrow>
   \<forall>c \<in> set q. chunk_origin c
      = (if env_mayShare E \<and> kMinCloneSize \<le> env_contiguousSize E then Aliased else Copied)"
proof (induction E idx counter src outQueue rule: odometer.induct)
  case (1 E idx counter src outQueue)
  show ?case
  proof (cases "idx \<ge> 0")
    case False
    with "1.prems" show ?thesis by (simp add: odometer_done)
  next
    case True
    show ?thesis
    proof (cases "idx = env_firstContiguousDim E")
      case emit: True
      from "1.prems"(1) True emit obtain c where
        c: "emit (env_dbg E) (env_data E) (env_mayShare E) src (env_contiguousSize E) = Inr c"
        and rec: "odometer E (idx - 1) counter src (outQueue @ [c]) = Inr q"
        by (subst (asm) odometer.simps) (auto split: sum.splits)
      have "\<forall>c \<in> set (outQueue @ [c]). chunk_origin c
              = (if env_mayShare E \<and> kMinCloneSize \<le> env_contiguousSize E then Aliased else Copied)"
        using "1.prems"(2) emit_origin [OF c] by auto
      from "1.IH"(1) [OF True emit c rec this] show ?thesis .
    next
      case step: False
      from "1.prems"(1) True step obtain st c sz where
        ats: "at (env_strides E) idx = Inr st" "at counter idx = Inr c"
             "at (env_sizes E) idx = Inr sz"
        by (subst (asm) odometer.simps) (auto split: sum.splits)
      show ?thesis
      proof (cases "c + 1 = sz")
        case reset: True
        have "odometer E (idx - 1) (counter[nat idx := 0])
                (src + st * env_elementSize E - sz * st * env_elementSize E) outQueue = Inr q"
          using "1.prems"(1) True step ats reset
          by (subst (asm) odometer.simps) (simp add: Let_def)
        from "1.IH"(2) [OF True step ats refl reset this "1.prems"(2)] show ?thesis .
      next
        case inc: False
        have "odometer E (env_firstContiguousDim E) (counter[nat idx := c + 1])
                (src + st * env_elementSize E) outQueue = Inr q"
          using "1.prems"(1) True step ats inc
          by (subst (asm) odometer.simps) (simp add: Let_def)
        from "1.IH"(3) [OF True step ats refl inc this "1.prems"(2)] show ?thesis .
      qed
    qed
  qed
qed

lemma mayShare_iff:
  "mayShare sharing data
   \<longleftrightarrow> sharing = SHARE_ALL \<or> (sharing = SHARE_IOBUF_MANAGED \<and> isManagedOne data)"
  by (cases sharing) simp_all

lemma kMinCloneSize_le: "kMinCloneSize \<le> len \<longleftrightarrow> 4096 \<le> unat len"
  by (simp add: kMinCloneSize_def word_le_nat_alt)

text \<open>
  Claim C4. A run emitted on the general path aliases the source buffer if and only if the
  sharing mode permits it (never for \<open>SHARE_NONE\<close>, for \<open>SHARE_IOBUF_MANAGED\<close>
  when the buffer is managed, always for \<open>SHARE_ALL\<close>) and the run has at least
  \<open>kMinCloneSize\<close> = 4096 bytes; otherwise it is copied. So a run of 4095 bytes is always
  copied and a run of 4096 bytes is aliased under \<open>SHARE_ALL\<close>. This holds for the single
  emission and for every run of the chain the general path returns.
\<close>

theorem zero_copy_threshold:
  "(emit dbg data (mayShare sharing data) src len = Inr c \<longrightarrow>
      (chunk_origin c = Aliased \<longleftrightarrow>
         (sharing = SHARE_ALL \<or> (sharing = SHARE_IOBUF_MANAGED \<and> isManagedOne data)) \<and>
         4096 \<le> unat len) \<and>
      (chunk_origin c = Copied \<longleftrightarrow>
         sharing = SHARE_NONE \<or> (sharing = SHARE_IOBUF_MANAGED \<and> \<not> isManagedOne data) \<or>
         unat len < 4096)) \<and>
   (serialize_general dbg sizes strides data elementSize sharing firstContiguousDim contiguousSize
      = Inr outQueue \<longrightarrow>
      (\<forall>c \<in> set outQueue.
         chunk_origin c
         = (if (sharing = SHARE_ALL \<or> (sharing = SHARE_IOBUF_MANAGED \<and> isManagedOne data)) \<and>
               4096 \<le> unat contiguousSize
            then Aliased else Copied))) \<and>
   kMinCloneSize = 4096"
proof (intro conjI impI)
  assume "emit dbg data (mayShare sharing data) src len = Inr c"
  from emit_origin [OF this]
  have o: "chunk_origin c
           = (if (sharing = SHARE_ALL \<or> (sharing = SHARE_IOBUF_MANAGED \<and> isManagedOne data)) \<and>
                 4096 \<le> unat len then Aliased else Copied)"
    by (simp add: mayShare_iff kMinCloneSize_le)
  show "chunk_origin c = Aliased \<longleftrightarrow>
         (sharing = SHARE_ALL \<or> (sharing = SHARE_IOBUF_MANAGED \<and> isManagedOne data)) \<and>
         4096 \<le> unat len"
    using o by (auto split: if_splits)
  show "chunk_origin c = Copied \<longleftrightarrow>
         sharing = SHARE_NONE \<or> (sharing = SHARE_IOBUF_MANAGED \<and> \<not> isManagedOne data) \<or>
         unat len < 4096"
    using o by (cases sharing) (auto split: if_splits)
next
  assume "serialize_general dbg sizes strides data elementSize sharing firstContiguousDim
            contiguousSize = Inr outQueue"
  from odometer_origins [OF this [unfolded serialize_general_def]]
  show "\<forall>c \<in> set outQueue.
         chunk_origin c
         = (if (sharing = SHARE_ALL \<or> (sharing = SHARE_IOBUF_MANAGED \<and> isManagedOne data)) \<and>
               4096 \<le> unat contiguousSize
            then Aliased else Copied)"
    by (simp add: mayShare_iff kMinCloneSize_le)
next
  show "kMinCloneSize = 4096" by (simp add: kMinCloneSize_def)
qed




theorem zero_copy_threshold_witness:
  "emit True \<lparr>buf_bytes = replicate 9096 7, isChained = False, isManagedOne = False\<rparr>
     (mayShare SHARE_ALL \<lparr>buf_bytes = replicate 9096 7, isChained = False, isManagedOne = False\<rparr>)
     0 4096 = Inr \<lparr>chunk_origin = Aliased, chunk_bytes = replicate 4096 7\<rparr> \<and>
   emit True \<lparr>buf_bytes = replicate 9096 7, isChained = False, isManagedOne = False\<rparr>
     (mayShare SHARE_ALL \<lparr>buf_bytes = replicate 9096 7, isChained = False, isManagedOne = False\<rparr>)
     0 4095 = Inr \<lparr>chunk_origin = Copied, chunk_bytes = replicate 4095 7\<rparr> \<and>
   emit True \<lparr>buf_bytes = replicate 9096 7, isChained = False, isManagedOne = False\<rparr>
     (mayShare SHARE_IOBUF_MANAGED
        \<lparr>buf_bytes = replicate 9096 7, isChained = False, isManagedOne = False\<rparr>)
     0 4096 = Inr \<lparr>chunk_origin = Copied, chunk_bytes = replicate 4096 7\<rparr> \<and>
   serialize_general True [2, 4096] [5000, 1]
     \<lparr>buf_bytes = replicate 9096 7, isChained = False, isManagedOne = False\<rparr> 1 SHARE_ALL 1 4096
     = Inr [\<lparr>chunk_origin = Aliased, chunk_bytes = replicate 4096 7\<rparr>,
            \<lparr>chunk_origin = Aliased, chunk_bytes = replicate 4096 7\<rparr>]"
proof -
  let ?D = "\<lparr>buf_bytes = replicate 9096 7, isChained = False, isManagedOne = False\<rparr>"
  have e1: "emit True ?D (mayShare SHARE_ALL ?D) 0 4096
            = Inr \<lparr>chunk_origin = Aliased, chunk_bytes = replicate 4096 7\<rparr>"
    by (subst emit_ok) (simp_all add: kMinCloneSize_def)
  have e2: "emit True ?D (mayShare SHARE_ALL ?D) 0 4095
            = Inr \<lparr>chunk_origin = Copied, chunk_bytes = replicate 4095 7\<rparr>"
    by (subst emit_ok) (simp_all add: kMinCloneSize_def)
  have e3: "emit True ?D (mayShare SHARE_IOBUF_MANAGED ?D) 0 4096
            = Inr \<lparr>chunk_origin = Copied, chunk_bytes = replicate 4096 7\<rparr>"
    by (subst emit_ok) (simp_all add: kMinCloneSize_def)
  have rs: "run_starts (take 1 (zip [2, 4096] [5000, 1])) 1 0 = [0, 5000 :: u64]"
    by code_simp
  have "serialize_general True [2, 4096] [5000, 1] ?D 1 SHARE_ALL (int 1) 4096
        = Inr (map (\<lambda>w. \<lparr>chunk_origin = (if mayShare SHARE_ALL ?D \<and> kMinCloneSize \<le> 4096
                                             then Aliased else Copied),
                           chunk_bytes = take (unat (4096 :: u64)) (drop (unat w) (buf_bytes ?D))\<rparr>)
                 (run_starts (take 1 (zip [2, 4096] [5000, 1])) 1 0))"
  proof (rule serialize_general_runs)
    show "\<forall>w \<in> set (run_starts (take 1 (zip [2, 4096] [5000, 1])) 1 0).
            unat w + unat (4096 :: u64) \<le> length (buf_bytes ?D)"
      unfolding rs by simp
  qed simp_all
  then have g: "serialize_general True [2, 4096] [5000, 1] ?D 1 SHARE_ALL 1 4096
           = Inr [\<lparr>chunk_origin = Aliased, chunk_bytes = replicate 4096 7\<rparr>,
                  \<lparr>chunk_origin = Aliased, chunk_bytes = replicate 4096 7\<rparr>]"
    unfolding rs by (simp add: kMinCloneSize_def)
  note c = zero_copy_threshold [of True ?D SHARE_ALL 0 4096
        "\<lparr>chunk_origin = Aliased, chunk_bytes = replicate 4096 7\<rparr>"
        "[2, 4096]" "[5000, 1]" 1 1 4096
        "[\<lparr>chunk_origin = Aliased, chunk_bytes = replicate 4096 7\<rparr>,
          \<lparr>chunk_origin = Aliased, chunk_bytes = replicate 4096 7\<rparr>]"]
  show ?thesis
    using c
    apply -
    apply (intro conjI)
       apply (rule e1)
      apply (rule e2)
     apply (rule e3)
    apply (rule g)
    done
qed


section \<open>The source buffer after the call\<close>

text \<open>
  Claim C8, amended. When serialize returns, the source buffer is in one of two states,
  decided by the path taken. On the whole-tensor path (at least one dimension, first
  contiguous dimension 0) it is left empty and the trimmed buffer has moved into the
  output, where it is the only run. With no dimensions it is left empty as well, but
  nothing moves: the output gets a fresh empty buffer and the bytes of the source are
  dropped. On the general path it is the buffer as it was, and the output is the chain of
  the traversal.
\<close>

theorem source_buffer_after:
  "serialize B sizes strides data dtype elementSize endianness sharing = Inr (out, data1) \<longrightarrow>
     (\<exists>firstContiguousDim contiguousElements dataElements.
        analyze (dchecks B) sizes strides
          = Inr (firstContiguousDim, contiguousElements, dataElements) \<and>
        data1 = (if sizes = [] \<or> firstContiguousDim = 0 then IOBuf_empty else data) \<and>
        Inr (out_data out)
          = (if sizes = [] then Inr []
             else if firstContiguousDim = 0
             then map_sum id (\<lambda>trimmed. [applySharingMode trimmed sharing])
                    (trimEnd (dchecks B) data (buf_length data - dataElements * elementSize))
             else serialize_general (dchecks B) sizes strides data elementSize sharing
                    firstContiguousDim (contiguousElements * elementSize)))"
proof
  assume S: "serialize B sizes strides data dtype elementSize endianness sharing = Inr (out, data1)"
  then obtain fcd ce de where an: "analyze (dchecks B) sizes strides = Inr (fcd, ce, de)"
    by (auto simp: serialize_def Let_def split: if_splits sum.splits)
  have after: "data1 = (if sizes = [] \<or> fcd = 0 then IOBuf_empty else data)"
    using S an by (rule serialize_source_after)
  have pass: "\<not> (dchecks B \<and> isChained data)"
    "\<not> (endianness \<noteq> NATIVE \<and> endianness \<noteq> gMachineEndianness B)"
    "\<not> (dchecks B \<and> \<not> ce * elementSize \<le> de * elementSize)"
    using S an by (auto simp: serialize_def Let_def split: if_splits)
  have "Inr (out_data out)
          = (if sizes = [] then Inr []
             else if fcd = 0
             then map_sum id (\<lambda>trimmed. [applySharingMode trimmed sharing])
                    (trimEnd (dchecks B) data (buf_length data - de * elementSize))
             else serialize_general (dchecks B) sizes strides data elementSize sharing
                    fcd (ce * elementSize))"
  proof (cases "sizes = []")
    case True
    with S an pass show ?thesis by (auto simp: serialize_def Let_def)
  next
    case ne: False
    show ?thesis
    proof (cases "fcd = 0")
      case True
      with S an pass ne show ?thesis
        by (auto simp: serialize_def Let_def split: if_splits sum.splits)
    next
      case False
      with S an pass ne show ?thesis
        by (auto simp: serialize_def Let_def split: sum.splits if_splits
              simp del: concat_eq_Nil_conv)
    qed
  qed
  with an after show "\<exists>firstContiguousDim contiguousElements dataElements.
        analyze (dchecks B) sizes strides
          = Inr (firstContiguousDim, contiguousElements, dataElements) \<and>
        data1 = (if sizes = [] \<or> firstContiguousDim = 0 then IOBuf_empty else data) \<and>
        Inr (out_data out)
          = (if sizes = [] then Inr []
             else if firstContiguousDim = 0
             then map_sum id (\<lambda>trimmed. [applySharingMode trimmed sharing])
                    (trimEnd (dchecks B) data (buf_length data - dataElements * elementSize))
             else serialize_general (dchecks B) sizes strides data elementSize sharing
                    firstContiguousDim (contiguousElements * elementSize))"
    by blast
qed

text \<open>
  The claim as stated fails with no dimensions: it puts that case with the whole-tensor
  path, the buffer handed over to the output. The analysis does give first contiguous
  dimension 0 and one element, and the whole-tensor path would move the buffer, trimmed to
  that element, into the output; but lines 95 to 100 return before that path, with
  \<^verbatim>\<open>out.data = folly::IOBuf()\<close> and \<^verbatim>\<open>data = folly::IOBuf()\<close>: of the six bytes of the
  source none is in the output, and the source is empty afterwards.
\<close>

theorem source_buffer_after_counterexample:
  "analyze True [] [] = Inr (0, 1, 1) \<and>
   map_sum id (\<lambda>trimmed. [applySharingMode trimmed SHARE_ALL])
     (trimEnd True
        \<lparr>buf_bytes = [10, 11, 12, 13, 14, 15], isChained = False, isManagedOne = True\<rparr>
        (buf_length
           \<lparr>buf_bytes = [10, 11, 12, 13, 14, 15], isChained = False, isManagedOne = True\<rparr>
         - 1 * 1))
     = Inr [\<lparr>chunk_origin = Aliased, chunk_bytes = [10]\<rparr>] \<and>
   (\<exists>out.
      serialize \<lparr>dchecks = True, gMachineEndianness = LITTLE\<rparr> [] []
        \<lparr>buf_bytes = [10, 11, 12, 13, 14, 15], isChained = False, isManagedOne = True\<rparr>
        (0 :: nat) 1 NATIVE SHARE_ALL = Inr (out, IOBuf_empty) \<and>
      out_data out = [] \<and> payload out = [] \<and>
      out_data out \<noteq> [\<lparr>chunk_origin = Aliased, chunk_bytes = [10]\<rparr>] \<and>
      out_data out
        \<noteq> [\<lparr>chunk_origin = Aliased, chunk_bytes = [10, 11, 12, 13, 14, 15]\<rparr>]) \<and>
   (\<exists>out.
      serialize \<lparr>dchecks = False, gMachineEndianness = LITTLE\<rparr> [] []
        \<lparr>buf_bytes = [10, 11, 12, 13, 14, 15], isChained = False, isManagedOne = True\<rparr>
        (0 :: nat) 1 NATIVE SHARE_NONE = Inr (out, IOBuf_empty) \<and>
      out_data out = [] \<and> payload out = [])"
proof -
  let ?data = "\<lparr>buf_bytes = [10, 11, 12, 13, 14, 15], isChained = False, isManagedOne = True\<rparr>"
  have a: "analyze True [] [] = Inr (0, 1, 1)"
    by code_simp
  have t: "map_sum id (\<lambda>trimmed. [applySharingMode trimmed SHARE_ALL])
     (trimEnd True ?data (buf_length ?data - 1 * 1))
     = Inr [\<lparr>chunk_origin = Aliased, chunk_bytes = [10]\<rparr>]"
    by code_simp
  have 1: "serialize \<lparr>dchecks = True, gMachineEndianness = LITTLE\<rparr> [] [] ?data
     (0 :: nat) 1 NATIVE SHARE_ALL
     = Inr (\<lparr>out_dataType = 0, out_endianness = LITTLE, out_sizes = [], out_data = []\<rparr>,
            IOBuf_empty)"
    by code_simp
  have 2: "serialize \<lparr>dchecks = False, gMachineEndianness = LITTLE\<rparr> [] [] ?data
     (0 :: nat) 1 NATIVE SHARE_NONE
     = Inr (\<lparr>out_dataType = 0, out_endianness = LITTLE, out_sizes = [], out_data = []\<rparr>,
            IOBuf_empty)"
    by code_simp
  have e1: "\<exists>out.
      serialize \<lparr>dchecks = True, gMachineEndianness = LITTLE\<rparr> [] [] ?data
        (0 :: nat) 1 NATIVE SHARE_ALL = Inr (out, IOBuf_empty) \<and>
      out_data out = [] \<and> payload out = [] \<and>
      out_data out \<noteq> [\<lparr>chunk_origin = Aliased, chunk_bytes = [10]\<rparr>] \<and>
      out_data out
        \<noteq> [\<lparr>chunk_origin = Aliased, chunk_bytes = [10, 11, 12, 13, 14, 15]\<rparr>]"
    unfolding 1 by (simp add: payload_def)
  have e2: "\<exists>out.
      serialize \<lparr>dchecks = False, gMachineEndianness = LITTLE\<rparr> [] [] ?data
        (0 :: nat) 1 NATIVE SHARE_NONE = Inr (out, IOBuf_empty) \<and>
      out_data out = [] \<and> payload out = []"
    unfolding 2 by (simp add: payload_def)
  show ?thesis
    apply (intro conjI)
       apply (rule a)
      apply (rule t)
     apply (rule e1)
    apply (rule e2)
    done
qed

theorem source_buffer_after_witness:
  "serialize \<lparr>dchecks = True, gMachineEndianness = LITTLE\<rparr> [] []
     \<lparr>buf_bytes = [10, 11, 12, 13, 14, 15], isChained = False, isManagedOne = True\<rparr>
     (0 :: nat) 1 NATIVE SHARE_ALL
     = Inr (\<lparr>out_dataType = 0, out_endianness = LITTLE, out_sizes = [], out_data = []\<rparr>,
            IOBuf_empty) \<and>
   serialize \<lparr>dchecks = True, gMachineEndianness = LITTLE\<rparr> [2, 2] [2, 1]
     \<lparr>buf_bytes = [10, 11, 12, 13, 14, 15], isChained = False, isManagedOne = True\<rparr>
     (0 :: nat) 1 NATIVE SHARE_ALL
     = Inr (\<lparr>out_dataType = 0, out_endianness = LITTLE, out_sizes = [2, 2],
              out_data = [\<lparr>chunk_origin = Aliased, chunk_bytes = [10, 11, 12, 13]\<rparr>]\<rparr>,
            IOBuf_empty) \<and>
   serialize \<lparr>dchecks = True, gMachineEndianness = LITTLE\<rparr> [2, 2] [1, 2]
     \<lparr>buf_bytes = [10, 11, 12, 13, 14, 15], isChained = False, isManagedOne = True\<rparr>
     (0 :: nat) 1 NATIVE SHARE_ALL
     = Inr (\<lparr>out_dataType = 0, out_endianness = LITTLE, out_sizes = [2, 2],
              out_data = [\<lparr>chunk_origin = Copied, chunk_bytes = [10]\<rparr>,
                          \<lparr>chunk_origin = Copied, chunk_bytes = [12]\<rparr>,
                          \<lparr>chunk_origin = Copied, chunk_bytes = [11]\<rparr>,
                          \<lparr>chunk_origin = Copied, chunk_bytes = [13]\<rparr>]\<rparr>,
            \<lparr>buf_bytes = [10, 11, 12, 13, 14, 15], isChained = False, isManagedOne = True\<rparr>)"
proof -
  let ?B = "\<lparr>dchecks = True, gMachineEndianness = LITTLE\<rparr>"
  let ?data = "\<lparr>buf_bytes = [10, 11, 12, 13, 14, 15], isChained = False, isManagedOne = True\<rparr>"
  have 1: "serialize ?B [] [] ?data (0 :: nat) 1 NATIVE SHARE_ALL
     = Inr (\<lparr>out_dataType = 0, out_endianness = LITTLE, out_sizes = [], out_data = []\<rparr>,
            IOBuf_empty)"
    by code_simp
  have 2: "serialize ?B [2, 2] [2, 1] ?data (0 :: nat) 1 NATIVE SHARE_ALL
     = Inr (\<lparr>out_dataType = 0, out_endianness = LITTLE, out_sizes = [2, 2],
              out_data = [\<lparr>chunk_origin = Aliased, chunk_bytes = [10, 11, 12, 13]\<rparr>]\<rparr>,
            IOBuf_empty)"
    by code_simp
  have 3: "serialize ?B [2, 2] [1, 2] ?data (0 :: nat) 1 NATIVE SHARE_ALL
     = Inr (\<lparr>out_dataType = 0, out_endianness = LITTLE, out_sizes = [2, 2],
              out_data = [\<lparr>chunk_origin = Copied, chunk_bytes = [10]\<rparr>,
                          \<lparr>chunk_origin = Copied, chunk_bytes = [12]\<rparr>,
                          \<lparr>chunk_origin = Copied, chunk_bytes = [11]\<rparr>,
                          \<lparr>chunk_origin = Copied, chunk_bytes = [13]\<rparr>]\<rparr>,
            ?data)"
    by code_simp
  note c = source_buffer_after [THEN mp, OF 1] source_buffer_after [THEN mp, OF 2]
    source_buffer_after [THEN mp, OF 3]
  show ?thesis
    using c
    apply -
    apply (intro conjI)
      apply (rule 1)
     apply (rule 2)
    apply (rule 3)
    done
qed


section \<open>Contract violations\<close>












section \<open>Termination and empty shapes\<close>

lemma prod_list_zero: "0 \<in> set xs \<Longrightarrow> prod_list xs = (0 :: u64)"
  by (induction xs) auto

lemma serialize_empty_whole:
  assumes z: "0 \<in> set sizes" and ch: "\<not> isChained data"
    and L: "length (buf_bytes data) < 2 ^ 64" and en: "native_order B endianness"
    and w: "strides = [] \<or> (length strides = length sizes \<and> trailing_contiguous sizes strides 0)"
  shows "serialize B sizes strides data dtype es endianness sharing
         = Inr (\<lparr>out_dataType = dtype, out_endianness = gMachineEndianness B, out_sizes = sizes,
                 out_data = [applySharingMode (data\<lparr>buf_bytes := []\<rparr>) sharing]\<rparr>, IOBuf_empty)"
proof -
  have ne: "sizes \<noteq> []" using z by auto
  have p: "prod_list sizes = 0" using z by (rule prod_list_zero)
  have an: "analyze (dchecks B) sizes strides = Inr (0, prod_list sizes, prod_list sizes)"
  proof (cases "strides = []")
    case True
    then show ?thesis by (simp add: analyze_empty)
  next
    case False
    with w show ?thesis by (intro analyze_whole_run) auto
  qed
  have "prod_list (map unat sizes) = 0" using z by (induction sizes) auto
  then show ?thesis
    using serialize_whole [OF ne an ch L en, of es dtype sharing] by simp
qed


text \<open>
  Claim C5, amended. Both loops of serialize terminate on every input (the recursion of
  each is well-founded on all states, in the arithmetic of the machine). An input with
  no dimensions is valid and takes the explicit empty-payload path. A shape with a
  dimension of size zero is valid and gives the empty payload through the whole-tensor
  path, without entering the general traversal, when its strides are empty or row-major.
\<close>

theorem termination_and_empty_shapes:
  "All contiguous_scan_dom \<and> All odometer_dom \<and>
   (\<not> (dchecks B \<and> isChained data) \<and> native_order B endianness \<and>
    \<not> (dchecks B \<and> strides \<noteq> []) \<longrightarrow>
      serialize B [] strides data dtype elementSize endianness sharing
      = Inr (\<lparr>out_dataType = dtype, out_endianness = gMachineEndianness B, out_sizes = [],
              out_data = []\<rparr>, IOBuf_empty)) \<and>
   (0 \<in> set sizes \<and> \<not> isChained data \<and> length (buf_bytes data) < 2 ^ 64 \<and>
    native_order B endianness \<and>
    (strides = [] \<or> (length strides = length sizes \<and> trailing_contiguous sizes strides 0)) \<longrightarrow>
      serialize B sizes strides data dtype elementSize endianness sharing
      = Inr (\<lparr>out_dataType = dtype, out_endianness = gMachineEndianness B, out_sizes = sizes,
              out_data = [applySharingMode (data\<lparr>buf_bytes := []\<rparr>) sharing]\<rparr>,
             IOBuf_empty))"
proof (intro conjI impI)
  show "All contiguous_scan_dom"
    by (relation "measure (\<lambda>(sizes, strides, i, c). nat (i + 1))") auto
  show "All odometer_dom"
    by (rule odometer_terminates)
next
  assume "\<not> (dchecks B \<and> isChained data) \<and> native_order B endianness \<and>
    \<not> (dchecks B \<and> strides \<noteq> [])"
  then show "serialize B [] strides data dtype elementSize endianness sharing
      = Inr (\<lparr>out_dataType = dtype, out_endianness = gMachineEndianness B, out_sizes = [],
              out_data = []\<rparr>, IOBuf_empty)"
    by (auto simp: serialize_def analyze_no_dims native_order_def)
next
  assume "0 \<in> set sizes \<and> \<not> isChained data \<and> length (buf_bytes data) < 2 ^ 64 \<and>
    native_order B endianness \<and>
    (strides = [] \<or> (length strides = length sizes \<and> trailing_contiguous sizes strides 0))"
  then show "serialize B sizes strides data dtype elementSize endianness sharing
      = Inr (\<lparr>out_dataType = dtype, out_endianness = gMachineEndianness B, out_sizes = sizes,
              out_data = [applySharingMode (data\<lparr>buf_bytes := []\<rparr>) sharing]\<rparr>,
             IOBuf_empty)"
    by (intro serialize_empty_whole) auto
qed

text \<open>
  The claim as stated fails for a shape with a dimension of size zero whose strides are not
  row-major: the first contiguous dimension is not 0, so the input is not taken by any
  empty-payload path; the assertion on the run size aborts the call in a debug build, and
  without it the general traversal is entered and reads past the buffer.
\<close>

theorem termination_and_empty_shapes_counterexample:
  "0 \<in> set [0, 4 :: u64] \<and>
   serialize \<lparr>dchecks = True, gMachineEndianness = LITTLE\<rparr> [0, 4] [9, 1]
     \<lparr>buf_bytes = [1, 2, 3, 4, 5, 6, 7, 8], isChained = False, isManagedOne = True\<rparr>
     (0 :: nat) 1 NATIVE SHARE_NONE = Inl CheckFailed \<and>
   serialize \<lparr>dchecks = False, gMachineEndianness = LITTLE\<rparr> [0, 4] [9, 1]
     \<lparr>buf_bytes = [1, 2, 3, 4, 5, 6, 7, 8], isChained = False, isManagedOne = True\<rparr>
     (0 :: nat) 1 NATIVE SHARE_NONE = Inl Undefined \<and>
   analyze True [0, 4] [9, 1] = Inr (1, 4, 0)"
proof -
  have 1: "serialize \<lparr>dchecks = True, gMachineEndianness = LITTLE\<rparr> [0, 4] [9, 1]
     \<lparr>buf_bytes = [1, 2, 3, 4, 5, 6, 7, 8], isChained = False, isManagedOne = True\<rparr>
     (0 :: nat) 1 NATIVE SHARE_NONE = Inl CheckFailed"
    by code_simp
  have 2: "serialize \<lparr>dchecks = False, gMachineEndianness = LITTLE\<rparr> [0, 4] [9, 1]
     \<lparr>buf_bytes = [1, 2, 3, 4, 5, 6, 7, 8], isChained = False, isManagedOne = True\<rparr>
     (0 :: nat) 1 NATIVE SHARE_NONE = Inl Undefined"
    by code_simp
  have 3: "analyze True [0, 4] [9, 1] = Inr (1, 4, 0)"
    by code_simp
  have 0: "0 \<in> set [0, 4 :: u64]" by simp
  show ?thesis
    apply (intro conjI)
       apply (rule 0)
      apply (rule 1)
     apply (rule 2)
    apply (rule 3)
    done
qed

theorem termination_and_empty_shapes_witness:
  "serialize \<lparr>dchecks = True, gMachineEndianness = LITTLE\<rparr> [] []
     \<lparr>buf_bytes = [1, 2, 3, 4, 5, 6, 7, 8], isChained = False, isManagedOne = True\<rparr>
     (0 :: nat) 1 NATIVE SHARE_NONE
   = Inr (\<lparr>out_dataType = 0, out_endianness = LITTLE, out_sizes = [], out_data = []\<rparr>,
          IOBuf_empty) \<and>
   serialize \<lparr>dchecks = True, gMachineEndianness = LITTLE\<rparr> [0, 4] [4, 1]
     \<lparr>buf_bytes = [1, 2, 3, 4, 5, 6, 7, 8], isChained = False, isManagedOne = True\<rparr>
     (0 :: nat) 1 NATIVE SHARE_NONE
   = Inr (\<lparr>out_dataType = 0, out_endianness = LITTLE, out_sizes = [0, 4],
            out_data = [\<lparr>chunk_origin = Copied, chunk_bytes = []\<rparr>]\<rparr>, IOBuf_empty)"
proof -
  let ?B = "\<lparr>dchecks = True, gMachineEndianness = LITTLE\<rparr>"
  let ?data = "\<lparr>buf_bytes = [1, 2, 3, 4, 5, 6, 7, 8], isChained = False, isManagedOne = True\<rparr>"
  have tc: "trailing_contiguous [0, 4] [4, 1] 0"
    by (auto simp: trailing_contiguous_def less_Suc_eq)
  have 1: "serialize ?B [] [] ?data (0 :: nat) 1 NATIVE SHARE_NONE
   = Inr (\<lparr>out_dataType = 0, out_endianness = LITTLE, out_sizes = [], out_data = []\<rparr>,
          IOBuf_empty)"
    using termination_and_empty_shapes [of ?B ?data NATIVE "[]" "0 :: nat" 1 SHARE_NONE]
    by (simp add: native_order_def)
  have 2: "serialize ?B [0, 4] [4, 1] ?data (0 :: nat) 1 NATIVE SHARE_NONE
   = Inr (\<lparr>out_dataType = 0, out_endianness = LITTLE, out_sizes = [0, 4],
            out_data = [\<lparr>chunk_origin = Copied, chunk_bytes = []\<rparr>]\<rparr>, IOBuf_empty)"
    using termination_and_empty_shapes [of ?B ?data NATIVE "[4, 1]" "0 :: nat" 1 SHARE_NONE "[0, 4]"] tc
    by (simp add: native_order_def applySharingMode_def)
  show ?thesis
    apply (intro conjI)
     apply (rule 1)
    apply (rule 2)
    done
qed

end
